theory Spec2Isabelle
  imports Complex_Main "HOL-Library.Word"
begin

section \<open>Stop-and-wait reliability layer and file transfer over an unreliable DataChannel\<close>

text \<open>
  The development embeds three pieces of the repository:
  \<^item> \<^verbatim>\<open>ReliabilityLayer\<close> of \<^verbatim>\<open>client/src/App.jsx\<close> (\<^verbatim>\<open>send\<close>,
    \<^verbatim>\<open>handleIncoming\<close>, \<^verbatim>\<open>update\<close> and the two timer callbacks);
  \<^item> the file transfer of the same file (\<^verbatim>\<open>arrayBufferToBase64\<close>,
    \<^verbatim>\<open>base64ToUint8Array\<close>, \<^verbatim>\<open>sendFile\<close> and the delivery callback handed to
    \<^verbatim>\<open>ReliabilityLayer\<close>);
  \<^item> the message handler of the signaling relay \<^verbatim>\<open>server/index.js\<close>.

  JavaScript objects tagged by a string field (\<^verbatim>\<open>t\<close>, \<^verbatim>\<open>kind\<close>, \<^verbatim>\<open>type\<close>) are
  datatypes whose fields carry the types of the wire format; one more constructor stands for
  every value the code's chain of \<^verbatim>\<open>if\<close>s lets fall through. The \<^verbatim>\<open>seq\<close> field of a
  received frame, which the code compares and echoes without looking at its type, is any
  JSON value. Mutation is explicit state
  passing. Calls that leave the code (\<^verbatim>\<open>dc.send\<close>, \<^verbatim>\<open>onDeliver\<close>, \<^verbatim>\<open>onStats\<close>)
  are recorded, in order, in a trace, and are taken to return normally: what the transport
  does with a message is not part of the layer. \<^verbatim>\<open>JSON.stringify\<close> and
  \<^verbatim>\<open>JSON.parse\<close> are parameters; \<^verbatim>\<open>performance.now()\<close> is an argument of the
  operation that reads it.
\<close>

subsection \<open>Payloads and frames\<close>

type_synonym u32 = "32 word"
type_synonym byte = "8 word"

text \<open>
  The payload objects of \<^verbatim>\<open>App.jsx\<close>. \<open>NotObject\<close> is a payload that fails
  \<^verbatim>\<open>!payload || typeof payload !== 'object'\<close>; \<open>UnknownKind\<close> is an object whose
  \<^verbatim>\<open>kind\<close> is none of the four the callback tests.
\<close>

datatype payload =
    NotObject
  | Text string
  | FileMeta string nat string nat
  | FileChunk nat string
  | FileComplete
  | UnknownKind

text \<open>
  The \<^verbatim>\<open>seq\<close> field of a frame as \<^verbatim>\<open>JSON.parse\<close> delivers it: a number, \<^verbatim>\<open>null\<close>,
  no field at all (\<^verbatim>\<open>undefined\<close>), or any other value (a string, a boolean, an array, an
  object; kept as its text). \<open>seq_number\<close> is the field of a frame the layer itself
  writes: the number of a 32-bit sequence number.
\<close>

datatype seq_field = SeqNumber real | SeqNull | SeqAbsent | SeqOther string

definition seq_number :: "u32 \<Rightarrow> seq_field" where
  "seq_number q = SeqNumber (real (unat q))"

text \<open>
  The frames \<^verbatim>\<open>{ t: 'data', seq, payload }\<close> and \<^verbatim>\<open>{ t: 'ack', seq }\<close>;
  \<open>OtherFrame\<close> is a parsed value whose \<^verbatim>\<open>t\<close> is neither.
\<close>

datatype frame =
    Data seq_field payload
  | Ack seq_field
  | OtherFrame

text \<open>
  What \<^verbatim>\<open>JSON.parse(raw)\<close> gives \<^verbatim>\<open>handleIncoming\<close>: a SyntaxError (caught by the
  \<^verbatim>\<open>try\<close>), the value \<^verbatim>\<open>null\<close> (on which reading \<^verbatim>\<open>msg.t\<close> raises a TypeError
  outside the \<^verbatim>\<open>try\<close>), or a value whose fields can be read.
\<close>

datatype parsed = SyntaxError | JsonNull | Msg frame

datatype js_exn = TypeError | RangeError | InvalidCharacterError

subsection \<open>The state of the reliability layer\<close>

record stats =
  sent :: nat
  received :: nat
  acks :: nat
  retransmits :: nat
  rttMs :: int
  bytesSent :: nat
  bytesReceived :: nat

record state =
  nextSeq :: u32
  awaitingAckSeq :: "u32 option"
  inflightPayload :: "payload option"
  inflightTimestamp :: real
  timer :: "nat option"
  timeoutMs :: nat
  stats :: stats
  rttHistory :: "int list"
  rttHistoryMax :: nat

datatype RTCDataChannelState = Connecting | Open | Closing | Closed

record channel =
  chan_id :: nat
  readyState :: RTCDataChannelState

text \<open>
  The two closures handed to \<^verbatim>\<open>setTimeout\<close> in \<^verbatim>\<open>send\<close>: the retransmission callback
  with the \<^verbatim>\<open>dc\<close>, \<^verbatim>\<open>seq\<close> and \<^verbatim>\<open>payload\<close> it captures, and \<^verbatim>\<open>() => {}\<close>.
\<close>

datatype callback = Retransmit nat u32 payload | Noop

text \<open>The calls that leave the layer, in the order they are made.\<close>

datatype effect =
    Wire nat string
  | Deliver payload
  | Snapshot stats "int list"

text \<open>
  The layer's \<^verbatim>\<open>state\<close> object together with the pending timers of the event loop
  (identifier, delay, callback) and the trace of outgoing calls.
\<close>

record world =
  sess :: state
  timers :: "(nat \<times> nat \<times> callback) list"
  nextTimerId :: nat
  trace :: "effect list"

definition init_stats :: stats where
  "init_stats = \<lparr>sent = 0, received = 0, acks = 0, retransmits = 0, rttMs = 0,
     bytesSent = 0, bytesReceived = 0\<rparr>"

definition init_state :: state where
  "init_state = \<lparr>nextSeq = 0, awaitingAckSeq = None, inflightPayload = None,
     inflightTimestamp = 0, timer = None, timeoutMs = 600, stats = init_stats,
     rttHistory = [], rttHistoryMax = 40\<rparr>"

definition init_world :: world where
  "init_world = \<lparr>sess = init_state, timers = [], nextTimerId = 0, trace = []\<rparr>"

subsection \<open>Timers\<close>

definition setTimeout :: "callback \<Rightarrow> nat \<Rightarrow> world \<Rightarrow> nat \<times> world" where
  "setTimeout cb ms w =
     (nextTimerId w,
      w\<lparr>timers := timers w @ [(nextTimerId w, ms, cb)], nextTimerId := Suc (nextTimerId w)\<rparr>)"

definition clearTimeout :: "nat option \<Rightarrow> world \<Rightarrow> world" where
  "clearTimeout h w =
     (case h of
        None \<Rightarrow> w
      | Some i \<Rightarrow> w\<lparr>timers := filter (\<lambda>e. fst e \<noteq> i) (timers w)\<rparr>)"

subsection \<open>\<^verbatim>\<open>update\<close>, \<^verbatim>\<open>send\<close>, the timer callback, \<^verbatim>\<open>handleIncoming\<close>\<close>

text \<open>
  \<^verbatim>\<open>state.awaitingAckSeq === msg.seq\<close>. \<^verbatim>\<open>awaitingAckSeq\<close> is \<^verbatim>\<open>null\<close> (\<open>None\<close>)
  or the number of a sequence number; strict equality holds between \<^verbatim>\<open>null\<close> and
  \<^verbatim>\<open>null\<close> and between two equal numbers, and in no other case.
\<close>

definition strict_equal :: "u32 option \<Rightarrow> seq_field \<Rightarrow> bool" where
  "strict_equal a v = (case a of None \<Rightarrow> v = SeqNull | Some q \<Rightarrow> v = seq_number q)"

definition update :: "world \<Rightarrow> world" where
  "update w = w\<lparr>trace := trace w @ [Snapshot (stats (sess w)) (rttHistory (sess w))]\<rparr>"

definition dc_send :: "nat \<Rightarrow> string \<Rightarrow> world \<Rightarrow> world" where
  "dc_send c text w = w\<lparr>trace := trace w @ [Wire c text]\<rparr>"

definition send ::
  "(frame \<Rightarrow> string) \<Rightarrow> real \<Rightarrow> world \<Rightarrow> channel option \<Rightarrow> payload \<Rightarrow> bool \<times> world" where
  "send stringify now w dc payload =
     (case dc of
        None \<Rightarrow> (False, w)
      | Some c \<Rightarrow>
          if readyState c \<noteq> Open then (False, w)
          else if awaitingAckSeq (sess w) \<noteq> None then (False, w)
          else
            let seq = nextSeq (sess w);
                w1 = w\<lparr>sess := (sess w)\<lparr>awaitingAckSeq := Some seq,
                                        inflightPayload := Some payload,
                                        inflightTimestamp := now\<rparr>\<rparr>;
                serialized = stringify (Data (seq_number seq) payload);
                w2 = dc_send (chan_id c) serialized w1;
                w3 = w2\<lparr>sess := (sess w2)\<lparr>stats := (stats (sess w2))
                        \<lparr>sent := sent (stats (sess w2)) + 1,
                         bytesSent := bytesSent (stats (sess w2)) + length serialized\<rparr>\<rparr>\<rparr>;
                w4 = update w3;
                (tid, w5) = setTimeout (Retransmit (chan_id c) seq payload) (timeoutMs (sess w4)) w4;
                w6 = w5\<lparr>sess := (sess w5)\<lparr>timer := Some tid\<rparr>\<rparr>;
                w7 = w6\<lparr>sess := (sess w6)\<lparr>nextSeq := nextSeq (sess w6) + 1\<rparr>\<rparr>
            in (True, w7))"

text \<open>The body of the closure armed by \<^verbatim>\<open>send\<close> (lines 105 to 116).\<close>

definition retransmit :: "(frame \<Rightarrow> string) \<Rightarrow> world \<Rightarrow> nat \<Rightarrow> u32 \<Rightarrow> payload \<Rightarrow> world" where
  "retransmit stringify w c seq payload =
     (if awaitingAckSeq (sess w) = Some seq then
        let retry = stringify (Data (seq_number seq) payload);
            w1 = dc_send c retry w;
            w2 = w1\<lparr>sess := (sess w1)\<lparr>stats := (stats (sess w1))
                    \<lparr>sent := sent (stats (sess w1)) + 1,
                     retransmits := retransmits (stats (sess w1)) + 1,
                     bytesSent := bytesSent (stats (sess w1)) + length retry\<rparr>\<rparr>\<rparr>;
            w3 = update w2;
            w4 = clearTimeout (timer (sess w3)) w3;
            (tid, w5) = setTimeout Noop (timeoutMs (sess w4)) w4
        in w5\<lparr>sess := (sess w5)\<lparr>timer := Some tid\<rparr>\<rparr>
      else w)"

text \<open>
  The event loop runs a pending timer: the entry leaves the table and its callback runs.
  An identifier that is not pending (cleared, or already run) does nothing.
\<close>

definition expire :: "(frame \<Rightarrow> string) \<Rightarrow> world \<Rightarrow> nat \<Rightarrow> world" where
  "expire stringify w i =
     (case find (\<lambda>e. fst e = i) (timers w) of
        None \<Rightarrow> w
      | Some (_, _, cb) \<Rightarrow>
          let w1 = w\<lparr>timers := filter (\<lambda>e. fst e \<noteq> i) (timers w)\<rparr>
          in (case cb of
                Noop \<Rightarrow> w1
              | Retransmit c seq payload \<Rightarrow> retransmit stringify w1 c seq payload))"

definition handleIncoming ::
  "(frame \<Rightarrow> string) \<Rightarrow> (string \<Rightarrow> parsed) \<Rightarrow> real \<Rightarrow> world \<Rightarrow> channel \<Rightarrow> string
     \<Rightarrow> world \<times> js_exn option" where
  "handleIncoming stringify parse now w dc raw =
     (case parse raw of
        SyntaxError \<Rightarrow> (w, None)
      | JsonNull \<Rightarrow> (w, Some TypeError)
      | Msg (Data seq payload) \<Rightarrow>
          let w1 = w\<lparr>sess := (sess w)\<lparr>stats := (stats (sess w))
                    \<lparr>received := received (stats (sess w)) + 1,
                     bytesReceived := bytesReceived (stats (sess w)) + length raw\<rparr>\<rparr>\<rparr>;
              w2 = update w1;
              w3 = dc_send (chan_id dc) (stringify (Ack seq)) w2
          in (w3\<lparr>trace := trace w3 @ [Deliver payload]\<rparr>, None)
      | Msg (Ack seq) \<Rightarrow>
          if strict_equal (awaitingAckSeq (sess w)) seq then
            let rtt = round (now - inflightTimestamp (sess w));
                s1 = (sess w)\<lparr>stats := (stats (sess w))
                        \<lparr>acks := acks (stats (sess w)) + 1, rttMs := rtt\<rparr>\<rparr>;
                s2 = s1\<lparr>rttHistory := rttHistory s1 @ [rtt]\<rparr>;
                s3 = (if length (rttHistory s2) > rttHistoryMax s2
                      then s2\<lparr>rttHistory := tl (rttHistory s2)\<rparr> else s2);
                s4 = s3\<lparr>awaitingAckSeq := None, inflightPayload := None\<rparr>;
                w1 = clearTimeout (timer s4) (w\<lparr>sess := s4\<rparr>)
            in (update w1, None)
          else (w, None)
      | Msg OtherFrame \<Rightarrow> (w, None))"

subsection \<open>Runs of the layer\<close>

text \<open>
  What can happen to a layer: the application calls \<^verbatim>\<open>send\<close>, the channel delivers a
  message to \<^verbatim>\<open>handleIncoming\<close>, or the event loop runs a timer. An exception raised by a
  handler is lost to the event loop, and the state stays as the handler left it.
\<close>

datatype event =
    CallSend "channel option" payload real
  | Message channel string real
  | Expire nat

fun step :: "(frame \<Rightarrow> string) \<Rightarrow> (string \<Rightarrow> parsed) \<Rightarrow> world \<Rightarrow> event \<Rightarrow> world" where
  "step stringify parse w (CallSend dc payload now) = snd (send stringify now w dc payload)"
| "step stringify parse w (Message dc raw now) = fst (handleIncoming stringify parse now w dc raw)"
| "step stringify parse w (Expire i) = expire stringify w i"

fun run :: "(frame \<Rightarrow> string) \<Rightarrow> (string \<Rightarrow> parsed) \<Rightarrow> world \<Rightarrow> event list \<Rightarrow> world" where
  "run stringify parse w [] = w"
| "run stringify parse w (ev # evs) = run stringify parse (step stringify parse w ev) evs"

text \<open>
  The sequence numbers given out by the calls of \<^verbatim>\<open>send\<close> that return \<^verbatim>\<open>true\<close> in a
  run, read where \<^verbatim>\<open>send\<close> stores \<^verbatim>\<open>seq\<close>: in \<^verbatim>\<open>state.awaitingAckSeq\<close>.
\<close>

fun assigned :: "(frame \<Rightarrow> string) \<Rightarrow> (string \<Rightarrow> parsed) \<Rightarrow> world \<Rightarrow> event list \<Rightarrow> u32 list" where
  "assigned stringify parse w [] = []"
| "assigned stringify parse w (CallSend dc payload now # evs) =
     (case send stringify now w dc payload of
        (True, w') \<Rightarrow>
          (case awaitingAckSeq (sess w') of None \<Rightarrow> [] | Some q \<Rightarrow> [q])
            @ assigned stringify parse w' evs
      | (False, w') \<Rightarrow> assigned stringify parse w' evs)"
| "assigned stringify parse w (ev # evs) =
     assigned stringify parse (step stringify parse w ev) evs"

text \<open>
  A channel on which \<^verbatim>\<open>send\<close> does not return at its first line:
  \<^verbatim>\<open>!dc || dc.readyState !== 'open'\<close> is false.
\<close>

definition channel_open :: "channel option \<Rightarrow> bool" where
  "channel_open dc = (case dc of None \<Rightarrow> False | Some c \<Rightarrow> readyState c = Open)"

text \<open>The calls of \<^verbatim>\<open>dc.send\<close> and of the delivery callback in a trace.\<close>

definition wire_calls :: "effect list \<Rightarrow> (nat \<times> string) list" where
  "wire_calls tr = concat (map (\<lambda>e. case e of Wire c text \<Rightarrow> [(c, text)] | _ \<Rightarrow> []) tr)"

definition deliveries :: "effect list \<Rightarrow> payload list" where
  "deliveries tr = concat (map (\<lambda>e. case e of Deliver p \<Rightarrow> [p] | _ \<Rightarrow> []) tr)"

subsection \<open>A sample run\<close>

text \<open>
  A concrete channel, a concrete codec and a run of \<open>n\<close> round trips (a \<^verbatim>\<open>send\<close>
  at time 0, then the acknowledgement of its sequence number at time \<open>i\<close>), on which the
  theorems below are instantiated. The sample parser reads the acknowledged sequence
  number off the length of the raw message. \<open>null_ack_parse\<close> is \<^verbatim>\<open>JSON.parse\<close> on one
  text, the acknowledgement whose \<^verbatim>\<open>seq\<close> is \<^verbatim>\<open>null\<close>, written as
  \<^verbatim>\<open>JSON.stringify\<close> writes it, and refuses every other text.
\<close>

definition dquote :: char where
  "dquote = CHR 0x22"

definition quoted :: "string \<Rightarrow> string" where
  "quoted s = dquote # s @ [dquote]"


definition sample_channel :: channel where
  "sample_channel = \<lparr>chan_id = 1, readyState = Open\<rparr>"

definition sample_stringify :: "frame \<Rightarrow> string" where
  "sample_stringify f =
     (case f of Data q p \<Rightarrow> ''data'' | Ack q \<Rightarrow> ''ack'' | OtherFrame \<Rightarrow> ''other'')"

definition sample_parse :: "string \<Rightarrow> parsed" where
  "sample_parse raw = Msg (Ack (seq_number (of_nat (length raw))))"


definition sample_cycles :: "nat \<Rightarrow> event list" where
  "sample_cycles n =
     concat (map (\<lambda>i. [CallSend (Some sample_channel) (Text ''ping'') 0,
                       Message sample_channel (replicate i CHR ''a'') (real i)]) [0..<n])"

definition idle_after :: "nat \<Rightarrow> world \<Rightarrow> bool" where
  "idle_after n w \<longleftrightarrow>
     nextSeq (sess w) = of_nat n \<and> awaitingAckSeq (sess w) = None
     \<and> rttHistoryMax (sess w) = 40 \<and> rttHistory (sess w) = map int [0..<n]"

text \<open>The invariant behind the bound on the RTT history.\<close>

definition hist_ok :: "world \<Rightarrow> bool" where
  "hist_ok w \<longleftrightarrow> rttHistoryMax (sess w) = 40 \<and> length (rttHistory (sess w)) \<le> 40"

section \<open>File transfer\<close>

subsection \<open>\<^verbatim>\<open>btoa\<close> and \<^verbatim>\<open>atob\<close>\<close>

text \<open>
  The two functions are the browser's. \<^verbatim>\<open>btoa\<close> is the base64 encoding of RFC 4648
  of a string whose code units are bytes (an Isabelle \<open>char\<close> is one byte, so every
  \<open>string\<close> here is such a string); \<^verbatim>\<open>atob\<close> is the forgiving-base64 decoding of
  the HTML Standard: ASCII whitespace is removed, one or two trailing \<^verbatim>\<open>=\<close> are
  removed when the length is a multiple of four, a length that is 1 modulo 4 or a character
  outside the alphabet is an InvalidCharacterError (\<open>None\<close>), and the bits left over in a
  last group of two or three characters are dropped.
\<close>

definition enc6 :: "nat \<Rightarrow> char" where
  "enc6 n =
     (if n < 26 then char_of (n + 65)
      else if n < 52 then char_of (n + 71)
      else if n < 62 then char_of (n - 4)
      else if n = 62 then CHR ''+'' else CHR ''/'')"

definition dec6 :: "char \<Rightarrow> nat option" where
  "dec6 c =
     (let k = (of_char c :: nat) in
      if 65 \<le> k \<and> k \<le> 90 then Some (k - 65)
      else if 97 \<le> k \<and> k \<le> 122 then Some (k - 71)
      else if 48 \<le> k \<and> k \<le> 57 then Some (k + 4)
      else if k = 43 then Some 62
      else if k = 47 then Some 63
      else None)"

fun sextets :: "nat list \<Rightarrow> nat list" where
  "sextets (a # b # c # r) =
     [a div 4, (a mod 4) * 16 + b div 16, (b mod 16) * 4 + c div 64, c mod 64] @ sextets r"
| "sextets [a, b] = [a div 4, (a mod 4) * 16 + b div 16, (b mod 16) * 4]"
| "sextets [a] = [a div 4, (a mod 4) * 16]"
| "sextets [] = []"

fun octets :: "nat list \<Rightarrow> nat list" where
  "octets (p # q # r # s # rest) =
     [p * 4 + q div 16, (q mod 16) * 16 + r div 4, (r mod 4) * 64 + s] @ octets rest"
| "octets [p, q, r] = [p * 4 + q div 16, (q mod 16) * 16 + r div 4]"
| "octets [p, q] = [p * 4 + q div 16]"
| "octets _ = []"

definition btoa :: "string \<Rightarrow> string" where
  "btoa s =
     map enc6 (sextets (map of_char s)) @ replicate ((3 - length s mod 3) mod 3) CHR ''=''"

definition ascii_whitespace :: "char \<Rightarrow> bool" where
  "ascii_whitespace c \<longleftrightarrow> (of_char c :: nat) \<in> {9, 10, 12, 13, 32}"

definition strip_padding :: "string \<Rightarrow> string" where
  "strip_padding d =
     (if length d mod 4 = 0 then
        (if 2 \<le> length d \<and> drop (length d - 2) d = ''=='' then take (length d - 2) d
         else if 1 \<le> length d \<and> last d = CHR ''='' then butlast d
         else d)
      else d)"

definition atob :: "string \<Rightarrow> string option" where
  "atob s =
     (let d = strip_padding (filter (\<lambda>c. \<not> ascii_whitespace c) s) in
      if length d mod 4 = 1 then None
      else (case those (map dec6 d) of
              None \<Rightarrow> None
            | Some v \<Rightarrow> Some (map char_of (octets v))))"

subsection \<open>\<^verbatim>\<open>arrayBufferToBase64\<close> and \<^verbatim>\<open>base64ToUint8Array\<close>\<close>

text \<open>
  The two \<^verbatim>\<open>for\<close> loops of the source, with their index. \<^verbatim>\<open>String.fromCharCode\<close> of
  a byte is the character with that code; a character code stored into a
  \<^verbatim>\<open>Uint8Array\<close> is taken modulo 256 (\<open>of_nat\<close> into \<open>byte\<close>).
\<close>

function arrayBufferToBase64_loop :: "byte list \<Rightarrow> nat \<Rightarrow> string \<Rightarrow> string" where
  "arrayBufferToBase64_loop bytes i binary =
     (if i < length bytes
      then arrayBufferToBase64_loop bytes (i + 1) (binary @ [char_of (unat (bytes ! i))])
      else binary)"
  by pat_completeness auto
termination
  by (relation "measure (\<lambda>(bytes, i, binary). length bytes - i)") auto

declare arrayBufferToBase64_loop.simps [simp del]

definition arrayBufferToBase64 :: "byte list \<Rightarrow> string" where
  "arrayBufferToBase64 buffer = btoa (arrayBufferToBase64_loop buffer 0 [])"

function base64ToUint8Array_loop :: "string \<Rightarrow> nat \<Rightarrow> byte list \<Rightarrow> byte list" where
  "base64ToUint8Array_loop binary i bytes =
     (if i < length binary
      then base64ToUint8Array_loop binary (i + 1) (bytes[i := of_nat (of_char (binary ! i))])
      else bytes)"
  by pat_completeness auto
termination
  by (relation "measure (\<lambda>(binary, i, bytes). length binary - i)") auto

declare base64ToUint8Array_loop.simps [simp del]

definition base64ToUint8Array :: "string \<Rightarrow> js_exn + byte list" where
  "base64ToUint8Array base64 =
     (case atob base64 of
        None \<Rightarrow> Inl InvalidCharacterError
      | Some binary \<Rightarrow>
          Inr (base64ToUint8Array_loop binary 0 (replicate (length binary) 0)))"

subsection \<open>The sender: \<^verbatim>\<open>sendFile\<close>\<close>

record File =
  file_name :: string
  file_type :: string
  file_bytes :: "byte list"

definition file_size :: "File \<Rightarrow> nat" where
  "file_size f = length (file_bytes f)"

text \<open>\<^verbatim>\<open>Blob.slice(start, end)\<close>: both positions are clamped to the size.\<close>

definition Blob_slice :: "byte list \<Rightarrow> nat \<Rightarrow> nat \<Rightarrow> byte list" where
  "Blob_slice bs start stop =
     (let relativeStart = min start (length bs);
          relativeEnd = min stop (length bs);
          span = relativeEnd - relativeStart
      in take span (drop relativeStart bs))"

definition CHUNK_SIZE :: nat where
  "CHUNK_SIZE = 16 * 1024"

text \<open>
  \<^verbatim>\<open>sendFile\<close> hands each payload to \<^verbatim>\<open>waitUntilSent\<close>, which calls
  \<^verbatim>\<open>reliability.send\<close> with it every 10 ms until the call returns \<^verbatim>\<open>true\<close>, and
  only then goes on. The model is the list of the payloads in the order in which they are
  handed over. The source fixes the chunk size to \<open>CHUNK_SIZE\<close>; the loop is written for
  any chunk size \<open>C\<close>, and \<open>sendFile\<close> is its instance. The progress display
  (\<^verbatim>\<open>setSendProgress\<close>) is left out.
\<close>

function sendFile_loop :: "nat \<Rightarrow> File \<Rightarrow> nat \<Rightarrow> nat \<Rightarrow> payload list" where
  "sendFile_loop C f totalChunks i =
     (if i < totalChunks then
        let start = i * C;
            stop = min (start + C) (file_size f);
            slice = Blob_slice (file_bytes f) start stop;
            b64 = arrayBufferToBase64 slice
        in FileChunk i b64 # sendFile_loop C f totalChunks (i + 1)
      else [])"
  by pat_completeness auto
termination
  by (relation "measure (\<lambda>(C, f, totalChunks, i). totalChunks - i)") auto

declare sendFile_loop.simps [simp del]

text \<open>The bytes the loop slices out for index \<open>i\<close>.\<close>

definition file_chunk :: "nat \<Rightarrow> File \<Rightarrow> nat \<Rightarrow> byte list" where
  "file_chunk C f i = Blob_slice (file_bytes f) (i * C) (min (i * C + C) (file_size f))"

definition sendFile_chunked :: "nat \<Rightarrow> File option \<Rightarrow> payload list" where
  "sendFile_chunked C fileToSend =
     (case fileToSend of
        None \<Rightarrow> []
      | Some f \<Rightarrow>
          let totalChunks = nat \<lceil>real (file_size f) / real C\<rceil>
          in FileMeta (file_name f) (file_size f) (file_type f) totalChunks
               # sendFile_loop C f totalChunks 0 @ [FileComplete])"

definition sendFile :: "File option \<Rightarrow> payload list" where
  "sendFile fileToSend = sendFile_chunked CHUNK_SIZE fileToSend"

subsection \<open>The receiver: the delivery callback\<close>

text \<open>
  The receiving side of \<^verbatim>\<open>App\<close>: \<^verbatim>\<open>receivedText\<close>, \<^verbatim>\<open>recvFileInfo\<close>,
  \<^verbatim>\<open>recvChunksRef.current\<close>, \<^verbatim>\<open>recvProgress\<close> (received, total) and the blob behind
  \<^verbatim>\<open>downloadUrl\<close> (\<open>None\<close> for the empty string). A slot of the array is \<open>None\<close>
  while it is a hole.

  \<^verbatim>\<open>new Array(n)\<close> raises a RangeError unless \<open>n < 2^32\<close>. An assignment
  \<^verbatim>\<open>a[idx] = v\<close> beyond the end extends the array with holes; an \<open>idx\<close> from
  \<open>2^32 - 1\<close> on is no array index and leaves the elements alone. \<^verbatim>\<open>new Blob(parts)\<close>
  takes a hole as \<^verbatim>\<open>undefined\<close>, whose part is the text \<^verbatim>\<open>undefined\<close>.

  The callback is created once (\<^verbatim>\<open>useMemo\<close> with no dependencies), so the
  \<^verbatim>\<open>recvFileInfo\<close> and \<^verbatim>\<open>downloadUrl\<close> it reads are those of the first render,
  \<^verbatim>\<open>null\<close> and the empty string: the blob's type is always
  \<^verbatim>\<open>application/octet-stream\<close> and no URL is revoked.
\<close>

record blob =
  blob_bytes :: "byte list"
  blob_type :: string

record receiver =
  receivedText :: string
  recvFileInfo :: "(string \<times> nat \<times> string) option"
  recvChunks :: "byte list option list"
  recvProgress :: "nat \<times> nat"
  downloadUrl :: "blob option"

definition init_receiver :: receiver where
  "init_receiver = \<lparr>receivedText = [], recvFileInfo = None, recvChunks = [],
     recvProgress = (0, 0), downloadUrl = None\<rparr>"

definition new_Array :: "nat \<Rightarrow> js_exn + 'a option list" where
  "new_Array n = (if n < 2 ^ 32 then Inr (replicate n None) else Inl RangeError)"

definition array_store :: "'a option list \<Rightarrow> nat \<Rightarrow> 'a \<Rightarrow> 'a option list" where
  "array_store xs i v =
     (if i < length xs then xs[i := Some v]
      else if i < 2 ^ 32 - 1 then xs @ replicate (i - length xs) None @ [Some v]
      else xs)"

definition blob_part :: "byte list option \<Rightarrow> byte list" where
  "blob_part slot =
     (case slot of
        None \<Rightarrow> map (\<lambda>c. of_nat (of_char c)) ''undefined''
      | Some bytes \<Rightarrow> bytes)"

definition onDeliver :: "receiver \<Rightarrow> payload \<Rightarrow> receiver \<times> js_exn option" where
  "onDeliver r payload =
     (case payload of
        NotObject \<Rightarrow> (r, None)
      | Text text \<Rightarrow> (r\<lparr>receivedText := receivedText r @ text\<rparr>, None)
      | FileMeta name fsize ftype totalChunks \<Rightarrow>
          let r1 = r\<lparr>recvFileInfo := Some (name, fsize, ftype)\<rparr>
          in (case new_Array totalChunks of
                Inl e \<Rightarrow> (r1, Some e)
              | Inr slots \<Rightarrow>
                  (r1\<lparr>recvChunks := slots, recvProgress := (0, totalChunks)\<rparr>, None))
      | FileChunk idx data \<Rightarrow>
          if length (recvChunks r) = 0 then (r, None)
          else (case base64ToUint8Array data of
                  Inl e \<Rightarrow> (r, Some e)
                | Inr bytes \<Rightarrow>
                    let slots = array_store (recvChunks r) idx bytes;
                        receivedChunks = length (filter (\<lambda>slot. slot \<noteq> None) slots)
                    in (r\<lparr>recvChunks := slots,
                          recvProgress := (receivedChunks, snd (recvProgress r))\<rparr>, None))
      | FileComplete \<Rightarrow>
          let parts = recvChunks r
          in if length parts = 0 then (r, None)
             else (r\<lparr>downloadUrl := Some \<lparr>blob_bytes = concat (map blob_part parts),
                        blob_type = ''application/octet-stream''\<rparr>\<rparr>, None)
      | UnknownKind \<Rightarrow> (r, None))"

text \<open>
  The callback run on a sequence of payloads, in order. An exception ends one invocation
  only; the next payload finds the state as that invocation left it.
\<close>

fun deliver_all :: "receiver \<Rightarrow> payload list \<Rightarrow> receiver" where
  "deliver_all r [] = r"
| "deliver_all r (p # ps) = deliver_all (fst (onDeliver r p)) ps"

definition is_chunk_below :: "nat \<Rightarrow> payload \<Rightarrow> bool" where
  "is_chunk_below n p = (case p of FileChunk idx data \<Rightarrow> idx < n | _ \<Rightarrow> False)"

section \<open>The signaling relay\<close>

text \<open>
  \<^verbatim>\<open>server/index.js\<close>. A socket is a number. A parsed message is the pair of fields the
  handler reads, \<^verbatim>\<open>type\<close> and \<^verbatim>\<open>roomId\<close> (\<open>None\<close> when absent), and the rest of
  the object. \<^verbatim>\<open>rooms\<close> is a \<^verbatim>\<open>Map\<close> from room names to \<^verbatim>\<open>Set\<close>s of sockets; a
  \<^verbatim>\<open>Set\<close> is a list without repetition, in insertion order, which is the order in which
  \<^verbatim>\<open>for ... of\<close> visits it. Every call of \<^verbatim>\<open>send\<close> on a socket is recorded in
  \<open>ws_sent\<close>. The calls of \<^verbatim>\<open>console\<close> are left out.
\<close>

record sigmsg =
  sig_type :: "string option"
  sig_roomId :: "string option"
  sig_rest :: string

record relay =
  rooms :: "string \<rightharpoonup> nat list"
  ws_roomId :: "nat \<rightharpoonup> string"
  ws_readyState :: "nat \<Rightarrow> nat"
  ws_sent :: "(nat \<times> string) list"

definition ws_send :: "nat \<Rightarrow> string \<Rightarrow> relay \<Rightarrow> relay" where
  "ws_send client text r = r\<lparr>ws_sent := ws_sent r @ [(client, text)]\<rparr>"

definition Set_add :: "nat \<Rightarrow> nat list \<Rightarrow> nat list" where
  "Set_add x xs = (if x \<in> set xs then xs else xs @ [x])"

definition getOrCreateRoom :: "relay \<Rightarrow> string \<Rightarrow> nat list \<times> relay" where
  "getOrCreateRoom r roomId =
     (case rooms r roomId of
        None \<Rightarrow> ([], r\<lparr>rooms := (rooms r)(roomId \<mapsto> [])\<rparr>)
      | Some room \<Rightarrow> (room, r))"

text \<open>The loop \<^verbatim>\<open>for (const client of room)\<close> of the relay branch.\<close>

fun relay_loop :: "string \<Rightarrow> nat \<Rightarrow> relay \<Rightarrow> nat list \<Rightarrow> relay" where
  "relay_loop text ws r [] = r"
| "relay_loop text ws r (client # clients) =
     relay_loop text ws
       (if client \<noteq> ws \<and> ws_readyState r client = 1 then ws_send client text r else r)
       clients"

definition on_message ::
  "(sigmsg \<Rightarrow> string) \<Rightarrow> (string \<Rightarrow> sigmsg option) \<Rightarrow> relay \<Rightarrow> nat \<Rightarrow> string \<Rightarrow> relay" where
  "on_message stringify parse r ws raw =
     (case parse raw of
        None \<Rightarrow> r
      | Some msg \<Rightarrow>
          if sig_type msg = Some ''join'' then
            (case sig_roomId msg of
               None \<Rightarrow> r
             | Some roomId \<Rightarrow>
                 if roomId = [] then r
                 else
                   let (room, r1) = getOrCreateRoom r roomId;
                       r2 = r1\<lparr>rooms := (rooms r1)(roomId \<mapsto> Set_add ws room)\<rparr>;
                       r3 = r2\<lparr>ws_roomId := (ws_roomId r2)(ws \<mapsto> roomId)\<rparr>
                   in ws_send ws
                        (stringify \<lparr>sig_type = Some ''joined'', sig_roomId = Some roomId,
                                    sig_rest = []\<rparr>) r3)
          else if sig_type msg \<in> {Some ''offer'', Some ''answer'', Some ''candidate''} then
            (case sig_roomId msg of
               None \<Rightarrow> r
             | Some roomId \<Rightarrow>
                 if roomId = [] then r
                 else (case rooms r roomId of
                         None \<Rightarrow> r
                       | Some room \<Rightarrow> relay_loop (stringify msg) ws r room))
          else r)"

definition init_relay :: relay where
  "init_relay = \<lparr>rooms = Map.empty, ws_roomId = Map.empty, ws_readyState = (\<lambda>ws. 1),
     ws_sent = []\<rparr>"

subsection \<open>A sample of the relay's JSON\<close>

text \<open>
  A codec that agrees with \<^verbatim>\<open>JSON.parse\<close> and \<^verbatim>\<open>JSON.stringify\<close> on the messages made
  of the two string fields \<^verbatim>\<open>type\<close> and \<^verbatim>\<open>roomId\<close>, in this order, without escapes in
  the strings: the parser accepts whitespace (space, tab, line feed, carriage return)
  between the tokens, the serializer writes none. Every other text is outside the sample
  and is refused by the sample parser. The relay after sockets 1 and 2 have joined
  \<^verbatim>\<open>room-A\<close> is built with it.
\<close>

datatype token = LBrace | RBrace | Colon | Comma | Str string | Bad

text \<open>
  The lexer; its first argument is \<open>None\<close> between tokens and holds the characters read
  so far inside a string.
\<close>

fun lex :: "string option \<Rightarrow> string \<Rightarrow> token list" where
  "lex None [] = []"
| "lex (Some acc) [] = [Bad]"
| "lex None (c # cs) =
     (if c = dquote then lex (Some []) cs
      else if (of_char c :: nat) \<in> {9, 10, 13, 32} then lex None cs
      else if c = CHR ''{'' then LBrace # lex None cs
      else if c = CHR ''}'' then RBrace # lex None cs
      else if c = CHR '':'' then Colon # lex None cs
      else if c = CHR '','' then Comma # lex None cs
      else [Bad])"
| "lex (Some acc) (c # cs) =
     (if c = dquote then Str acc # lex None cs
      else if c = CHR 0x5C \<or> (of_char c :: nat) < 32 then [Bad]
      else lex (Some (acc @ [c])) cs)"

definition sample_sig_parse :: "string \<Rightarrow> sigmsg option" where
  "sample_sig_parse raw =
     (case lex None raw of
        [LBrace, Str k1, Colon, Str t, Comma, Str k2, Colon, Str r, RBrace] \<Rightarrow>
          if k1 = ''type'' \<and> k2 = ''roomId''
          then Some \<lparr>sig_type = Some t, sig_roomId = Some r, sig_rest = []\<rparr>
          else None
      | _ \<Rightarrow> None)"

definition json_member :: "string \<Rightarrow> string \<Rightarrow> string" where
  "json_member k v = quoted k @ '':'' @ quoted v"

definition sample_sig_stringify :: "sigmsg \<Rightarrow> string" where
  "sample_sig_stringify m =
     ''{'' @
     (case (sig_type m, sig_roomId m) of
        (Some t, Some r) \<Rightarrow> json_member ''type'' t @ '','' @ json_member ''roomId'' r
      | (Some t, None) \<Rightarrow> json_member ''type'' t
      | (None, Some r) \<Rightarrow> json_member ''roomId'' r
      | (None, None) \<Rightarrow> [])
     @ ''}''"

definition join_room_A :: string where
  "join_room_A = ''{'' @ json_member ''type'' ''join'' @ '','' @ json_member ''roomId'' ''room-A'' @ ''}''"

definition joined_room_A :: string where
  "joined_room_A = ''{'' @ json_member ''type'' ''joined'' @ '','' @ json_member ''roomId'' ''room-A'' @ ''}''"

text \<open>An offer for \<^verbatim>\<open>room-A\<close> written with a space after the colons and the comma.\<close>

definition spaced_offer :: string where
  "spaced_offer =
     ''{'' @ quoted ''type'' @ '': '' @ quoted ''offer'' @ '', '' @ quoted ''roomId'' @ '': ''
       @ quoted ''room-A'' @ ''}''"

definition compact_offer :: string where
  "compact_offer = ''{'' @ json_member ''type'' ''offer'' @ '','' @ json_member ''roomId'' ''room-A'' @ ''}''"

definition two_joined :: relay where
  "two_joined =
     on_message sample_sig_stringify sample_sig_parse
       (on_message sample_sig_stringify sample_sig_parse init_relay 1 join_room_A)
       2 join_room_A"

section \<open>Properties of the reliability layer\<close>

subsection \<open>What each operation leaves alone\<close>

lemma send_nextSeq:
  "nextSeq (sess (snd (send sf now w dc p))) =
     (if fst (send sf now w dc p) then nextSeq (sess w) + 1 else nextSeq (sess w))"
  by (simp add: send_def Let_def dc_send_def update_def setTimeout_def split: option.splits)

lemma send_awaiting:
  "fst (send sf now w dc p) \<Longrightarrow>
   awaitingAckSeq (sess (snd (send sf now w dc p))) = Some (nextSeq (sess w))"
  by (auto simp: send_def Let_def dc_send_def update_def setTimeout_def
      split: option.splits if_splits)

lemma retransmit_nextSeq: "nextSeq (sess (retransmit sf w c q p)) = nextSeq (sess w)"
  by (simp add: retransmit_def Let_def dc_send_def update_def setTimeout_def clearTimeout_def
      split: option.splits)

lemma expire_nextSeq: "nextSeq (sess (expire sf w i)) = nextSeq (sess w)"
  by (simp add: expire_def Let_def retransmit_nextSeq split: option.splits callback.splits)

lemma handleIncoming_nextSeq:
  "nextSeq (sess (fst (handleIncoming sf pf now w dc raw))) = nextSeq (sess w)"
  by (simp add: handleIncoming_def Let_def dc_send_def update_def clearTimeout_def
      split: parsed.splits frame.splits option.splits)

lemma run_append: "run sf pf w (xs @ ys) = run sf pf (run sf pf w xs) ys"
  by (induction xs arbitrary: w) simp_all

lemma assigned_append:
  "assigned sf pf w (xs @ ys) = assigned sf pf w xs @ assigned sf pf (run sf pf w xs) ys"
proof (induction sf pf w xs rule: assigned.induct)
  case (2 sf pf w dc payload now evs)
  then show ?case by (cases "send sf now w dc payload") (auto split: bool.splits)
qed simp_all

subsection \<open>Sequence numbers count the accepted sends\<close>

lemma assigned_from:
  "assigned sf pf w evs =
     map (\<lambda>k. nextSeq (sess w) + of_nat k) [0..<length (assigned sf pf w evs)]"
proof (induction sf pf w evs rule: assigned.induct)
  case (1 sf pf w)
  show ?case by simp
next
  case (2 sf pf w dc payload now evs)
  obtain ok w' where sw: "send sf now w dc payload = (ok, w')"
    by (cases "send sf now w dc payload")
  show ?case
  proof (cases ok)
    case True
    from sw True have aw: "awaitingAckSeq (sess w') = Some (nextSeq (sess w))"
      using send_awaiting [of sf now w dc payload] by simp
    from sw True have nx: "nextSeq (sess w') = nextSeq (sess w) + 1"
      using send_nextSeq [of sf now w dc payload] by simp
    let ?n = "length (assigned sf pf w' evs)"
    have ih: "assigned sf pf w' evs = map (\<lambda>k. nextSeq (sess w') + of_nat k) [0..<?n]"
      using "2.IH"(1) [OF sw [symmetric]] True by simp
    have "assigned sf pf w (CallSend dc payload now # evs)
            = nextSeq (sess w) # assigned sf pf w' evs"
      using sw True aw by simp
    also have "\<dots> = nextSeq (sess w) # map (\<lambda>k. nextSeq (sess w) + of_nat (Suc k)) [0..<?n]"
      using ih nx by (simp add: ac_simps)
    also have "\<dots> = map (\<lambda>k. nextSeq (sess w) + of_nat k) [0..<Suc ?n]"
      by (simp add: upt_conv_Cons map_Suc_upt [symmetric] del: upt_Suc)
    finally show ?thesis using sw True aw by simp
  next
    case False
    from sw False have nx: "nextSeq (sess w') = nextSeq (sess w)"
      using send_nextSeq [of sf now w dc payload] by simp
    show ?thesis using "2.IH"(2) [OF sw [symmetric]] False sw nx by simp
  qed
qed (simp_all add: handleIncoming_nextSeq expire_nextSeq)

lemma assigned_fresh:
  "assigned sf pf init_world evs = map of_nat [0..<length (assigned sf pf init_world evs)]"
  using assigned_from [of sf pf init_world evs] by (simp add: init_world_def init_state_def)

subsection \<open>The bound on the RTT history is an invariant\<close>

lemma hist_ok_send: "hist_ok w \<Longrightarrow> hist_ok (snd (send sf now w dc p))"
  by (simp add: hist_ok_def send_def Let_def dc_send_def update_def setTimeout_def
      split: option.splits)

lemma hist_ok_retransmit: "hist_ok w \<Longrightarrow> hist_ok (retransmit sf w c q p)"
  by (simp add: hist_ok_def retransmit_def Let_def dc_send_def update_def setTimeout_def
      clearTimeout_def split: option.splits)

lemma hist_ok_expire: "hist_ok w \<Longrightarrow> hist_ok (expire sf w i)"
  using hist_ok_retransmit
  by (auto simp: expire_def Let_def hist_ok_def split: option.splits callback.splits)

lemma hist_ok_handleIncoming:
  "hist_ok w \<Longrightarrow> hist_ok (fst (handleIncoming sf pf now w dc raw))"
  by (auto simp: hist_ok_def handleIncoming_def Let_def dc_send_def update_def clearTimeout_def
      split: parsed.splits frame.splits option.splits)

lemma hist_ok_run: "hist_ok w \<Longrightarrow> hist_ok (run sf pf w evs)"
proof (induction evs arbitrary: w)
  case Nil
  then show ?case by simp
next
  case (Cons ev evs)
  have "hist_ok (step sf pf w ev)"
    using Cons.prems
    by (cases ev) (simp_all add: hist_ok_send hist_ok_expire hist_ok_handleIncoming)
  then show ?case using Cons.IH by simp
qed

lemma hist_ok_init: "hist_ok init_world"
  by (simp add: hist_ok_def init_world_def init_state_def)

lemma ack_history:
  assumes "pf raw = Msg (Ack v)" and "strict_equal (awaitingAckSeq (sess w)) v"
  shows "rttHistory (sess (fst (handleIncoming sf pf now w dc raw))) =
     (if length (rttHistory (sess w)) < rttHistoryMax (sess w)
      then rttHistory (sess w) @ [round (now - inflightTimestamp (sess w))]
      else tl (rttHistory (sess w) @ [round (now - inflightTimestamp (sess w))]))"
  using assms
  by (auto simp: handleIncoming_def Let_def dc_send_def update_def clearTimeout_def
      split: option.splits)

subsection \<open>The first send of a fresh layer, and the timers\<close>

lemma send_init:
  "send sf now init_world (Some \<lparr>chan_id = c, readyState = Open\<rparr>) p =
    (True,
     \<lparr>sess = init_state\<lparr>nextSeq := 1, awaitingAckSeq := Some 0, inflightPayload := Some p,
          inflightTimestamp := now, timer := Some 0,
          stats := init_stats\<lparr>sent := 1, bytesSent := length (sf (Data (seq_number 0) p))\<rparr>\<rparr>,
      timers = [(0, 600, Retransmit c 0 p)], nextTimerId = 1,
      trace = [Wire c (sf (Data (seq_number 0) p)),
               Snapshot (init_stats\<lparr>sent := 1, bytesSent := length (sf (Data (seq_number 0) p))\<rparr>) []]\<rparr>)"
  by (simp add: send_def Let_def dc_send_def update_def setTimeout_def init_world_def
      init_state_def init_stats_def)

lemma expire_retransmit:
  assumes "find (\<lambda>e. fst e = i) (timers w) = Some (i, ms, Retransmit c q p)"
    and "awaitingAckSeq (sess w) = Some q"
  shows "expire sf w i =
     \<lparr>sess = (sess w)\<lparr>timer := Some (nextTimerId w),
          stats := (stats (sess w))
            \<lparr>sent := sent (stats (sess w)) + 1,
             retransmits := retransmits (stats (sess w)) + 1,
             bytesSent := bytesSent (stats (sess w)) + length (sf (Data (seq_number q) p))\<rparr>\<rparr>,
      timers = (case timer (sess w) of
                  None \<Rightarrow> filter (\<lambda>e. fst e \<noteq> i) (timers w)
                | Some j \<Rightarrow> filter (\<lambda>e. fst e \<noteq> j) (filter (\<lambda>e. fst e \<noteq> i) (timers w)))
               @ [(nextTimerId w, timeoutMs (sess w), Noop)],
      nextTimerId = Suc (nextTimerId w),
      trace = trace w @
        [Wire c (sf (Data (seq_number q) p)),
         Snapshot ((stats (sess w))
            \<lparr>sent := sent (stats (sess w)) + 1,
             retransmits := retransmits (stats (sess w)) + 1,
             bytesSent := bytesSent (stats (sess w)) + length (sf (Data (seq_number q) p))\<rparr>)
           (rttHistory (sess w))]\<rparr>"
  using assms
  by (simp add: expire_def retransmit_def Let_def dc_send_def update_def setTimeout_def
      clearTimeout_def split: option.splits)

lemma expire_noop:
  "find (\<lambda>e. fst e = i) (timers w) = Some (i, ms, Noop) \<Longrightarrow>
   expire sf w i = w\<lparr>timers := filter (\<lambda>e. fst e \<noteq> i) (timers w)\<rparr>"
  by (simp add: expire_def)

lemma expire_not_pending:
  "find (\<lambda>e. fst e = i) (timers w) = None \<Longrightarrow> expire sf w i = w"
  by (simp add: expire_def)

subsection \<open>The sample run\<close>

lemma sample_cycles_Suc:
  "sample_cycles (Suc n) = sample_cycles n @
     [CallSend (Some sample_channel) (Text ''ping'') 0,
      Message sample_channel (replicate n CHR ''a'') (real n)]"
  by (simp add: sample_cycles_def)

lemma sample_cycle_step:
  assumes "idle_after n w" and "n < 40"
  shows "idle_after (Suc n)
     (run sample_stringify sample_parse w
        [CallSend (Some sample_channel) (Text ''ping'') 0,
         Message sample_channel (replicate n CHR ''a'') (real n)])"
    and "assigned sample_stringify sample_parse w
        [CallSend (Some sample_channel) (Text ''ping'') 0,
         Message sample_channel (replicate n CHR ''a'') (real n)] = [of_nat n]"
  using assms
  by (simp_all add: idle_after_def send_def handleIncoming_def Let_def dc_send_def update_def
      setTimeout_def clearTimeout_def sample_channel_def sample_parse_def strict_equal_def)

lemma sample_cycles_run:
  "n \<le> 40 \<Longrightarrow>
   idle_after n (run sample_stringify sample_parse init_world (sample_cycles n))
   \<and> assigned sample_stringify sample_parse init_world (sample_cycles n) = map of_nat [0..<n]"
proof (induction n)
  case 0
  show ?case
    by (simp add: sample_cycles_def idle_after_def init_world_def init_state_def)
next
  case (Suc n)
  then have ih: "idle_after n (run sample_stringify sample_parse init_world (sample_cycles n))"
    and ia: "assigned sample_stringify sample_parse init_world (sample_cycles n)
               = map of_nat [0..<n]"
    and n: "n < 40" by simp_all
  show ?case
    using sample_cycle_step [OF ih n] ia
    by (simp add: sample_cycles_Suc run_append assigned_append del: run.simps assigned.simps)
qed

section \<open>The claims about the reliability layer\<close>

text \<open>
  C3. Backpressure without side effects: when the channel is not open (or there is no
  channel), or a message is in flight (\<open>awaitingAckSeq\<close> is not \<open>None\<close>), \<open>send\<close>
  returns \<open>False\<close> and the whole world is as before: no sequence number is used, nothing
  is written to the channel, no counter moves, no timer is armed.
\<close>

theorem send_backpressure:
  "\<not> channel_open dc \<or> awaitingAckSeq (sess w) \<noteq> None \<Longrightarrow>
   send stringify now w dc payload = (False, w)"
  by (auto simp: send_def channel_open_def split: option.splits)

theorem send_backpressure_witness:
  "send sample_stringify 0 init_world (Some \<lparr>chan_id = 1, readyState = Closing\<rparr>) (Text ''a'')
     = (False, init_world)
   \<and> send sample_stringify 9
        (snd (send sample_stringify 0 init_world (Some sample_channel) (Text ''a'')))
        (Some sample_channel) (Text ''b'')
     = (False, snd (send sample_stringify 0 init_world (Some sample_channel) (Text ''a'')))"
proof
  show "send sample_stringify 0 init_world (Some \<lparr>chan_id = 1, readyState = Closing\<rparr>) (Text ''a'')
     = (False, init_world)"
    using send_backpressure [of "Some \<lparr>chan_id = 1, readyState = Closing\<rparr>" init_world]
    by (simp add: channel_open_def)
next
  let ?w = "snd (send sample_stringify 0 init_world (Some sample_channel) (Text ''a''))"
  have "awaitingAckSeq (sess ?w) \<noteq> None"
    by (simp add: send_init sample_channel_def)
  then show "send sample_stringify 9 ?w (Some sample_channel) (Text ''b'') = (False, ?w)"
    using send_backpressure [of "Some sample_channel" ?w] by simp
qed

text \<open>
  C4. An accepted send: on an open channel with nothing in flight, \<open>send\<close> returns
  \<open>True\<close>; it takes \<open>seq = nextSeq\<close>, stores it in \<open>awaitingAckSeq\<close>, records the
  payload and the time, writes the serialized frame \<open>Data seq payload\<close> to the channel,
  adds 1 to \<open>sent\<close> and the length of the serialized frame to \<open>bytesSent\<close>, emits a
  snapshot of the statistics, arms a timer of \<open>timeoutMs\<close> with the retransmission
  callback, and advances \<open>nextSeq\<close> by one modulo \<open>2^32\<close>. Hence, in any run of a fresh
  layer, the sends that are accepted get the sequence numbers 0, 1, 2, ... modulo
  \<open>2^32\<close>, in this order.
\<close>

theorem send_success:
  assumes "channel_open (Some c)" and "awaitingAckSeq (sess w) = None"
  shows "send sf now w (Some c) p =
    (True,
     \<lparr>sess = (sess w)\<lparr>nextSeq := nextSeq (sess w) + 1,
          awaitingAckSeq := Some (nextSeq (sess w)),
          inflightPayload := Some p,
          inflightTimestamp := now,
          timer := Some (nextTimerId w),
          stats := (stats (sess w))
            \<lparr>sent := sent (stats (sess w)) + 1,
             bytesSent := bytesSent (stats (sess w))
               + length (sf (Data (seq_number (nextSeq (sess w))) p))\<rparr>\<rparr>,
      timers = timers w @ [(nextTimerId w, timeoutMs (sess w),
                 Retransmit (chan_id c) (nextSeq (sess w)) p)],
      nextTimerId = Suc (nextTimerId w),
      trace = trace w @
        [Wire (chan_id c) (sf (Data (seq_number (nextSeq (sess w))) p)),
         Snapshot ((stats (sess w))
            \<lparr>sent := sent (stats (sess w)) + 1,
             bytesSent := bytesSent (stats (sess w))
               + length (sf (Data (seq_number (nextSeq (sess w))) p))\<rparr>)
           (rttHistory (sess w))]\<rparr>)
    \<and> unat (nextSeq (sess (snd (send sf now w (Some c) p))))
        = (unat (nextSeq (sess w)) + 1) mod 2 ^ 32
    \<and> map unat (assigned sf pf init_world evs)
        = map (\<lambda>k. k mod 2 ^ 32) [0..<length (assigned sf pf init_world evs)]"
proof (intro conjI)
  have op: "readyState c = Open" using assms(1) by (simp add: channel_open_def)
  show "send sf now w (Some c) p =
    (True,
     \<lparr>sess = (sess w)\<lparr>nextSeq := nextSeq (sess w) + 1,
          awaitingAckSeq := Some (nextSeq (sess w)),
          inflightPayload := Some p,
          inflightTimestamp := now,
          timer := Some (nextTimerId w),
          stats := (stats (sess w))
            \<lparr>sent := sent (stats (sess w)) + 1,
             bytesSent := bytesSent (stats (sess w))
               + length (sf (Data (seq_number (nextSeq (sess w))) p))\<rparr>\<rparr>,
      timers = timers w @ [(nextTimerId w, timeoutMs (sess w),
                 Retransmit (chan_id c) (nextSeq (sess w)) p)],
      nextTimerId = Suc (nextTimerId w),
      trace = trace w @
        [Wire (chan_id c) (sf (Data (seq_number (nextSeq (sess w))) p)),
         Snapshot ((stats (sess w))
            \<lparr>sent := sent (stats (sess w)) + 1,
             bytesSent := bytesSent (stats (sess w))
               + length (sf (Data (seq_number (nextSeq (sess w))) p))\<rparr>)
           (rttHistory (sess w))]\<rparr>)"
    using op assms(2)
    by (simp add: send_def Let_def dc_send_def update_def setTimeout_def)
  have "fst (send sf now w (Some c) p)"
    using op assms(2) by (simp add: send_def Let_def split_def)
  then have "nextSeq (sess (snd (send sf now w (Some c) p))) = nextSeq (sess w) + 1"
    by (simp add: send_nextSeq)
  then show "unat (nextSeq (sess (snd (send sf now w (Some c) p))))
        = (unat (nextSeq (sess w)) + 1) mod 2 ^ 32"
    by (simp add: unat_word_ariths)
  define n where "n = length (assigned sf pf init_world evs)"
  have "assigned sf pf init_world evs = map of_nat [0..<n]"
    unfolding n_def by (rule assigned_fresh)
  then have "map unat (assigned sf pf init_world evs) = map (\<lambda>k. k mod 2 ^ 32) [0..<n]"
    by (simp add: unat_of_nat)
  then show "map unat (assigned sf pf init_world evs)
        = map (\<lambda>k. k mod 2 ^ 32) [0..<length (assigned sf pf init_world evs)]"
    unfolding n_def .
qed

theorem send_success_witness:
  "fst (send sample_stringify 0 init_world (Some sample_channel) (Text ''ping''))
   \<and> awaitingAckSeq (sess (snd (send sample_stringify 0 init_world (Some sample_channel)
         (Text ''ping'')))) = Some 0
   \<and> trace (snd (send sample_stringify 0 init_world (Some sample_channel) (Text ''ping'')))
       = [Wire 1 ''data'', Snapshot (init_stats\<lparr>sent := 1, bytesSent := 4\<rparr>) []]
   \<and> unat (nextSeq (sess (snd (send sample_stringify 0 init_world (Some sample_channel)
         (Text ''ping''))))) = 1
   \<and> map unat (assigned sample_stringify sample_parse init_world (sample_cycles 3)) = [0, 1, 2]"
proof -
  have o: "channel_open (Some sample_channel)"
    by (simp add: channel_open_def sample_channel_def)
  have a: "awaitingAckSeq (sess init_world) = None"
    by (simp add: init_world_def init_state_def)
  have l: "length (assigned sample_stringify sample_parse init_world (sample_cycles 3)) = 3"
    using sample_cycles_run [of 3] by simp
  have u: "[0..<3] = [0, 1, 2]"
    by (simp add: upt_rec)
  note t = send_success [OF o a, of sample_stringify 0 "Text ''ping''" sample_parse
      "sample_cycles 3"]
  from t have "map unat (assigned sample_stringify sample_parse init_world (sample_cycles 3))
      = map (\<lambda>k. k mod 2 ^ 32) [0..<3]"
    by (simp only: l)
  then have c3: "map unat (assigned sample_stringify sample_parse init_world (sample_cycles 3))
      = [0, 1, 2]"
    by (simp add: u)
  from t have c2: "unat (nextSeq (sess (snd (send sample_stringify 0 init_world
      (Some sample_channel) (Text ''ping''))))) = 1"
    by (simp add: init_world_def init_state_def)
  from t have c1: "fst (send sample_stringify 0 init_world (Some sample_channel) (Text ''ping''))
    \<and> awaitingAckSeq (sess (snd (send sample_stringify 0 init_world (Some sample_channel)
         (Text ''ping'')))) = Some 0
    \<and> trace (snd (send sample_stringify 0 init_world (Some sample_channel) (Text ''ping'')))
       = [Wire 1 ''data'', Snapshot (init_stats\<lparr>sent := 1, bytesSent := 4\<rparr>) []]"
    by (simp add: init_world_def init_state_def init_stats_def sample_channel_def
        sample_stringify_def)
  show ?thesis
    using c1 c2 c3 by blast
qed




text \<open>
  C6. Every data frame is acknowledged and delivered: when the raw message parses to
  \<open>Data q p\<close>, \<open>handleIncoming\<close> adds 1 to \<open>received\<close> and the length of the raw
  message to \<open>bytesReceived\<close>, emits a snapshot, writes the serialized \<open>Ack q\<close>, with
  the same \<open>seq\<close> field \<open>q\<close> whatever it is, to the channel and calls the delivery
  callback with \<open>p\<close>, in this order and whatever the state.
  So the same frame handled twice is acknowledged twice and delivered twice.
\<close>

theorem data_frame_acked_and_delivered:
  assumes "parse raw = Msg (Data q p)"
  shows "handleIncoming sf parse now w dc raw =
     (w\<lparr>sess := (sess w)\<lparr>stats := (stats (sess w))
            \<lparr>received := received (stats (sess w)) + 1,
             bytesReceived := bytesReceived (stats (sess w)) + length raw\<rparr>\<rparr>,
        trace := trace w @
          [Snapshot ((stats (sess w))
              \<lparr>received := received (stats (sess w)) + 1,
               bytesReceived := bytesReceived (stats (sess w)) + length raw\<rparr>)
             (rttHistory (sess w)),
           Wire (chan_id dc) (sf (Ack q)),
           Deliver p]\<rparr>, None)
   \<and> wire_calls (trace (fst (handleIncoming sf parse now' (fst (handleIncoming sf parse now w dc raw)) dc raw)))
       = wire_calls (trace w) @ [(chan_id dc, sf (Ack q)), (chan_id dc, sf (Ack q))]
   \<and> deliveries (trace (fst (handleIncoming sf parse now' (fst (handleIncoming sf parse now w dc raw)) dc raw)))
       = deliveries (trace w) @ [p, p]
   \<and> received (stats (sess (fst (handleIncoming sf parse now' (fst (handleIncoming sf parse now w dc raw)) dc raw))))
       = received (stats (sess w)) + 2"
  using assms
  by (simp add: handleIncoming_def Let_def update_def dc_send_def wire_calls_def deliveries_def)

theorem data_frame_acked_and_delivered_witness:
  "wire_calls (trace (fst (handleIncoming sample_stringify (\<lambda>raw. Msg (Data (seq_number 7) (Text raw))) 2
      (fst (handleIncoming sample_stringify (\<lambda>raw. Msg (Data (seq_number 7) (Text raw))) 1 init_world
         sample_channel ''hello'')) sample_channel ''hello'')))
     = [(1, ''ack''), (1, ''ack'')]
   \<and> deliveries (trace (fst (handleIncoming sample_stringify (\<lambda>raw. Msg (Data (seq_number 7) (Text raw))) 2
      (fst (handleIncoming sample_stringify (\<lambda>raw. Msg (Data (seq_number 7) (Text raw))) 1 init_world
         sample_channel ''hello'')) sample_channel ''hello'')))
     = [Text ''hello'', Text ''hello'']"
proof -
  have e: "wire_calls (trace init_world) = []" "deliveries (trace init_world) = []"
    by (simp_all add: init_world_def wire_calls_def deliveries_def)
  have a: "sample_stringify (Ack (seq_number 7)) = ''ack''" "chan_id sample_channel = 1"
    by (simp_all add: sample_stringify_def sample_channel_def)
  have p: "(\<lambda>raw. Msg (Data (seq_number 7) (Text raw))) ''hello''
      = Msg (Data (seq_number 7) (Text ''hello''))"
    by simp
  note t = data_frame_acked_and_delivered [of "\<lambda>raw. Msg (Data (seq_number 7) (Text raw))"
      "''hello''" "seq_number 7" "Text ''hello''" sample_stringify 1 init_world sample_channel 2,
      OF p]
  show ?thesis
    using t [THEN conjunct2, THEN conjunct1] t [THEN conjunct2, THEN conjunct2, THEN conjunct1]
    by (simp add: e a)
qed

text \<open>
  C7. The RTT history is bounded: after any run of a fresh layer (sends, incoming messages
  and timers in any order) \<open>rttHistory\<close> holds at most 40 samples; and an acknowledgement
  of the awaited sequence number (any acknowledgement that passes the test
  \<^verbatim>\<open>state.awaitingAckSeq === msg.seq\<close>) appends its sample at the end, dropping the oldest
  sample, the head, when the history already holds 40.
\<close>

theorem rttHistory_bounded_fifo:
  "length (rttHistory (sess (run sf pf init_world evs))) \<le> 40
   \<and> (pf raw = Msg (Ack v) \<and> strict_equal (awaitingAckSeq (sess (run sf pf init_world evs))) v
        \<longrightarrow>
        rttHistory (sess (fst (handleIncoming sf pf now (run sf pf init_world evs) dc raw))) =
          (if length (rttHistory (sess (run sf pf init_world evs))) < 40
           then rttHistory (sess (run sf pf init_world evs))
                  @ [round (now - inflightTimestamp (sess (run sf pf init_world evs)))]
           else tl (rttHistory (sess (run sf pf init_world evs)))
                  @ [round (now - inflightTimestamp (sess (run sf pf init_world evs)))]))"
proof -
  let ?w = "run sf pf init_world evs"
  have ok: "hist_ok ?w" using hist_ok_init by (rule hist_ok_run)
  then have m: "rttHistoryMax (sess ?w) = 40" and l: "length (rttHistory (sess ?w)) \<le> 40"
    by (simp_all add: hist_ok_def)
  have "rttHistory (sess (fst (handleIncoming sf pf now ?w dc raw))) =
          (if length (rttHistory (sess ?w)) < 40
           then rttHistory (sess ?w) @ [round (now - inflightTimestamp (sess ?w))]
           else tl (rttHistory (sess ?w)) @ [round (now - inflightTimestamp (sess ?w))])"
    if "pf raw = Msg (Ack v)" and "strict_equal (awaitingAckSeq (sess ?w)) v"
  proof (cases "length (rttHistory (sess ?w)) < 40")
    case True
    then show ?thesis
      using ack_history [of pf raw v ?w sf now dc] that m by simp
  next
    case False
    then have "rttHistory (sess ?w) \<noteq> []" by auto
    then show ?thesis
      using ack_history [of pf raw v ?w sf now dc] that m False by simp
  qed
  then show ?thesis using l by blast
qed

theorem rttHistory_bounded_fifo_witness:
  "length (rttHistory (sess (run sample_stringify sample_parse init_world
      (sample_cycles 40 @ [CallSend (Some sample_channel) (Text ''ping'') 0])))) = 40
   \<and> rttHistory (sess (run sample_stringify sample_parse init_world
      (sample_cycles 40 @ [CallSend (Some sample_channel) (Text ''ping'') 0]))) = map int [0..<40]
   \<and> rttHistory (sess (fst (handleIncoming sample_stringify sample_parse 40
        (run sample_stringify sample_parse init_world
           (sample_cycles 40 @ [CallSend (Some sample_channel) (Text ''ping'') 0]))
        sample_channel (replicate 40 CHR ''a''))))
     = map int [1..<41]"
proof -
  let ?v = "run sample_stringify sample_parse init_world (sample_cycles 40)"
  let ?evs = "sample_cycles 40 @ [CallSend (Some sample_channel) (Text ''ping'') 0]"
  let ?w = "run sample_stringify sample_parse init_world ?evs"
  have v: "idle_after 40 ?v" using sample_cycles_run [of 40] by simp
  have w: "?w = snd (send sample_stringify 0 ?v (Some sample_channel) (Text ''ping''))"
    by (simp add: run_append)
  have h: "rttHistory (sess ?w) = map int [0..<40]"
    and a: "awaitingAckSeq (sess ?w) = Some 40"
    and t: "inflightTimestamp (sess ?w) = 0"
    using v unfolding w
    by (simp_all add: idle_after_def send_def Let_def dc_send_def update_def setTimeout_def
        sample_channel_def)
  have p: "sample_parse (replicate 40 CHR ''a'') = Msg (Ack (seq_number 40))"
    by (simp add: sample_parse_def)
  have q: "strict_equal (awaitingAckSeq (sess ?w)) (seq_number 40)"
    using a by (simp add: strict_equal_def)
  have e: "tl (map int [0..<40]) @ [40] = map int [1..<41]"
  proof -
    have "[1..<41] = [1..<40] @ [40]" using upt_Suc_append [of 1 40] by simp
    moreover have "tl (map int [0..<40]) = map int [1..<40]"
      by (simp add: map_tl [symmetric] tl_upt del: upt.simps)
    ultimately show ?thesis by simp
  qed
  show ?thesis
    using rttHistory_bounded_fifo [of sample_stringify sample_parse ?evs
        "replicate 40 CHR ''a''" "seq_number 40" 40 sample_channel] p q h t e
    by simp
qed

text \<open>
  C2. Retransmission. The claim asks for one retransmission at every expiry of the timer
  while the message is unacknowledged. The code retransmits at the first expiry only: the
  timer it arms afterwards carries the empty callback \<^verbatim>\<open>() => {}\<close>. On a fresh layer,
  after one accepted send, the first expiry writes the frame again, counts one retransmit
  and arms timer 1; the expiry of timer 1 changes nothing but the timer table, which is
  then empty; the message is still awaited, no timer will ever run again, and every later
  \<open>send\<close> is refused.
\<close>

theorem retransmission_stops_after_one_retry:
  "(let w1 = snd (send sf 0 init_world (Some \<lparr>chan_id = c, readyState = Open\<rparr>) p);
        w2 = expire sf w1 0;
        w3 = expire sf w2 1
    in timers w1 = [(0, 600, Retransmit c 0 p)]
     \<and> trace w2 = trace w1 @ [Wire c (sf (Data (seq_number 0) p)),
          Snapshot (init_stats\<lparr>sent := 2, retransmits := 1,
            bytesSent := 2 * length (sf (Data (seq_number 0) p))\<rparr>) []]
     \<and> retransmits (stats (sess w2)) = 1
     \<and> timers w2 = [(1, 600, Noop)]
     \<and> awaitingAckSeq (sess w2) = Some 0
     \<and> w3 = w2\<lparr>timers := []\<rparr>
     \<and> retransmits (stats (sess w3)) = 1
     \<and> awaitingAckSeq (sess w3) = Some 0
     \<and> expire sf w3 i = w3
     \<and> send sf now w3 dc' p' = (False, w3))"
proof -
  define w1 where "w1 = snd (send sf 0 init_world (Some \<lparr>chan_id = c, readyState = Open\<rparr>) p)"
  define w2 where "w2 = expire sf w1 0"
  define w3 where "w3 = expire sf w2 1"
  have w1: "w1 = \<lparr>sess = init_state\<lparr>nextSeq := 1, awaitingAckSeq := Some 0,
          inflightPayload := Some p, inflightTimestamp := 0, timer := Some 0,
          stats := init_stats\<lparr>sent := 1, bytesSent := length (sf (Data (seq_number 0) p))\<rparr>\<rparr>,
      timers = [(0, 600, Retransmit c 0 p)], nextTimerId = 1,
      trace = [Wire c (sf (Data (seq_number 0) p)),
               Snapshot (init_stats\<lparr>sent := 1, bytesSent := length (sf (Data (seq_number 0) p))\<rparr>) []]\<rparr>"
    unfolding w1_def by (simp add: send_init)
  have w2: "w2 = \<lparr>sess = init_state\<lparr>nextSeq := 1, awaitingAckSeq := Some 0,
          inflightPayload := Some p, inflightTimestamp := 0, timer := Some 1,
          stats := init_stats\<lparr>sent := 2, retransmits := 1,
            bytesSent := 2 * length (sf (Data (seq_number 0) p))\<rparr>\<rparr>,
      timers = [(1, 600, Noop)], nextTimerId = 2,
      trace = trace w1 @ [Wire c (sf (Data (seq_number 0) p)),
         Snapshot (init_stats\<lparr>sent := 2, retransmits := 1,
           bytesSent := 2 * length (sf (Data (seq_number 0) p))\<rparr>) []]\<rparr>"
    unfolding w2_def
    by (subst expire_retransmit [where ms = 600 and c = c and q = 0 and p = p])
       (simp_all add: w1 init_state_def init_stats_def)
  have w3: "w3 = w2\<lparr>timers := []\<rparr>"
    unfolding w3_def
    by (subst expire_noop [where ms = 600]) (simp_all add: w2)
  have idle: "expire sf w3 i = w3"
    by (rule expire_not_pending) (simp add: w3)
  have busy: "send sf now w3 dc' p' = (False, w3)"
    by (simp add: send_def w3 w2 init_state_def split: option.splits)
  have "timers w1 = [(0, 600, Retransmit c 0 p)]
     \<and> trace w2 = trace w1 @ [Wire c (sf (Data (seq_number 0) p)),
          Snapshot (init_stats\<lparr>sent := 2, retransmits := 1,
            bytesSent := 2 * length (sf (Data (seq_number 0) p))\<rparr>) []]
     \<and> retransmits (stats (sess w2)) = 1
     \<and> timers w2 = [(1, 600, Noop)]
     \<and> awaitingAckSeq (sess w2) = Some 0
     \<and> w3 = w2\<lparr>timers := []\<rparr>
     \<and> retransmits (stats (sess w3)) = 1
     \<and> awaitingAckSeq (sess w3) = Some 0
     \<and> expire sf w3 i = w3
     \<and> send sf now w3 dc' p' = (False, w3)"
    using w3 idle busy by (simp add: w1 w2 init_state_def init_stats_def)
  then show ?thesis
    unfolding w1_def w2_def w3_def Let_def .
qed

section \<open>Properties of the file transfer\<close>

subsection \<open>\<^verbatim>\<open>atob\<close> undoes \<^verbatim>\<open>btoa\<close>\<close>

lemma dec6_enc6: "v < 64 \<Longrightarrow> dec6 (enc6 v) = Some v"
  by (auto simp: dec6_def enc6_def Let_def of_char_of [where ?'a = nat])

lemma enc6_not_pad: "v < 64 \<Longrightarrow> enc6 v \<noteq> CHR ''=''"
  using dec6_enc6 [of v] by (auto simp: dec6_def Let_def)

lemma enc6_not_ws: "v < 64 \<Longrightarrow> \<not> ascii_whitespace (enc6 v)"
  using dec6_enc6 [of v] by (auto simp: dec6_def Let_def ascii_whitespace_def split: if_splits)

lemma sextets_lt: "\<forall>x\<in>set xs. x < 256 \<Longrightarrow> \<forall>v\<in>set (sextets xs). v < 64"
  by (induction xs rule: sextets.induct) auto

lemma mod3_step: "Suc (Suc (Suc n)) mod 3 = n mod 3"
  by presburger

lemma length_sextets_mod4:
  "length (sextets xs) mod 4 = (if length xs mod 3 = 0 then 0 else length xs mod 3 + 1)"
proof (induction xs rule: sextets.induct)
  case (1 a b c r)
  have "length (sextets (a # b # c # r)) mod 4 = length (sextets r) mod 4"
    by simp
  then show ?case using 1 by (simp add: mod3_step)
qed simp_all

lemma octets_sextets: "\<forall>x\<in>set xs. x < 256 \<Longrightarrow> octets (sextets xs) = xs"
  by (induction xs rule: sextets.induct) auto

lemma those_dec6_enc6:
  "\<forall>v\<in>set vs. v < 64 \<Longrightarrow> those (map dec6 (map enc6 vs)) = Some vs"
  by (induction vs) (simp_all add: dec6_enc6)

lemma strip_padding_append:
  assumes "k \<le> 2" and "length body mod 4 = (4 - k) mod 4"
    and "body \<noteq> [] \<longrightarrow> last body \<noteq> CHR ''=''"
  shows "strip_padding (body @ replicate k CHR ''='') = body"
proof -
  consider "k = 0" | "k = 1" | "k = 2" using assms(1) by linarith
  then show ?thesis
  proof cases
    case 1
    show ?thesis
    proof (cases "body = []")
      case True
      then show ?thesis using 1 by (simp add: strip_padding_def)
    next
      case False
      then have l: "last body \<noteq> CHR ''=''" using assms(3) by simp
      have "drop (length body - 2) body \<noteq> ''==''"
      proof
        assume e: "drop (length body - 2) body = ''==''"
        have "last (drop (length body - 2) body) = last body"
          using False e by (intro last_drop) (cases body, auto)
        then show False using e l by simp
      qed
      then show ?thesis using 1 l by (simp add: strip_padding_def)
    qed
  next
    case 2
    then have "length body mod 4 = 3" using assms(2) by simp
    then have ne: "body \<noteq> []" by auto
    then have l: "last body \<noteq> CHR ''=''" using assms(3) by simp
    have len: "Suc (length body) mod 4 = 0" using \<open>length body mod 4 = 3\<close> by presburger
    have "drop (length (butlast body)) (butlast body @ [last body]) = [last body]"
      by simp
    then have d: "drop (length body - Suc 0) body = [last body]"
      using ne by simp
    show ?thesis using 2 l len d ne by (simp add: strip_padding_def)
  next
    case 3
    then have "length body mod 4 = 2" using assms(2) by simp
    then have len: "Suc (Suc (length body)) mod 4 = 0" by presburger
    show ?thesis using 3 len by (simp add: strip_padding_def numeral_2_eq_2)
  qed
qed

lemma atob_btoa: "atob (btoa s) = Some s"
proof -
  let ?xs = "map of_char s :: nat list"
  let ?k = "(3 - length s mod 3) mod 3"
  let ?body = "map enc6 (sextets ?xs)"
  have b256: "\<forall>x\<in>set ?xs. x < 256" by auto
  then have lt: "\<forall>v\<in>set (sextets ?xs). v < 64" by (rule sextets_lt)
  have pad_ws: "\<not> ascii_whitespace CHR ''=''"
    by (simp add: ascii_whitespace_def)
  have nows: "filter (\<lambda>c. \<not> ascii_whitespace c) (btoa s) = btoa s"
  proof (rule filter_True, rule ballI)
    fix c assume "c \<in> set (btoa s)"
    then have "c \<in> enc6 ` set (sextets ?xs) \<or> c \<in> set (replicate ?k CHR ''='')"
      unfolding btoa_def by simp
    then show "\<not> ascii_whitespace c"
    proof
      assume "c \<in> enc6 ` set (sextets ?xs)"
      then obtain v where "v \<in> set (sextets ?xs)" "c = enc6 v" by blast
      then show ?thesis using lt enc6_not_ws by blast
    next
      assume "c \<in> set (replicate ?k CHR ''='')"
      then have "c = CHR ''=''" by (simp only: in_set_replicate)
      then show ?thesis using pad_ws by simp
    qed
  qed
  have lenb: "length ?body mod 4 = (if length s mod 3 = 0 then 0 else length s mod 3 + 1)"
    using length_sextets_mod4 [of ?xs] by simp
  have r3: "length s mod 3 = 0 \<or> length s mod 3 = 1 \<or> length s mod 3 = 2"
    by linarith
  have k2: "?k \<le> 2"
    using r3 by auto
  have m: "length ?body mod 4 = (4 - ?k) mod 4"
    unfolding lenb using r3 by auto
  have l: "?body \<noteq> [] \<longrightarrow> last ?body \<noteq> CHR ''=''"
  proof
    assume ne: "?body \<noteq> []"
    then have "last ?body \<in> set ?body" by (rule last_in_set)
    then obtain v where "v \<in> set (sextets ?xs)" "last ?body = enc6 v" by auto
    then show "last ?body \<noteq> CHR ''=''" using lt enc6_not_pad by metis
  qed
  have sp: "strip_padding (btoa s) = ?body"
    unfolding btoa_def using strip_padding_append [OF k2 m l] .
  have n1: "length ?body mod 4 \<noteq> 1"
    unfolding lenb using r3 by auto
  have th: "those (map dec6 ?body) = Some (sextets ?xs)"
    using those_dec6_enc6 [OF lt] .
  have oc: "map char_of (octets (sextets ?xs)) = s"
    using octets_sextets [OF b256] by (simp add: o_def)
  show ?thesis
    unfolding atob_def nows sp Let_def using n1 th oc by simp
qed

lemma atob_empty: "atob [] = Some []"
  by (simp add: atob_def strip_padding_def)

subsection \<open>The two conversion loops\<close>

lemma of_char_char_of_byte: "of_nat (of_char (char_of (unat (b :: byte)))) = b"
proof -
  have "unat b < 256" using unsigned_less [of b, where ?'a = nat] by simp
  then show ?thesis by (simp add: of_char_of)
qed

lemma arrayBufferToBase64_loop_eq:
  "arrayBufferToBase64_loop bytes i binary
     = binary @ map (\<lambda>b. char_of (unat b)) (drop i bytes)"
proof (induction bytes i binary rule: arrayBufferToBase64_loop.induct)
  case (1 bytes i binary)
  show ?case
  proof (cases "i < length bytes")
    case True
    then have "drop i bytes = bytes ! i # drop (Suc i) bytes"
      by (simp add: Cons_nth_drop_Suc)
    then show ?thesis
      using 1 True by (subst arrayBufferToBase64_loop.simps) simp
  next
    case False
    then show ?thesis by (subst arrayBufferToBase64_loop.simps) simp
  qed
qed

lemma base64ToUint8Array_loop_eq:
  "length bytes = length binary \<Longrightarrow>
   base64ToUint8Array_loop binary i bytes
     = take i bytes @ map (\<lambda>c. of_nat (of_char c)) (drop i binary)"
proof (induction binary i bytes rule: base64ToUint8Array_loop.induct)
  case (1 binary i bytes)
  show ?case
  proof (cases "i < length binary")
    case True
    have d: "drop i binary = binary ! i # drop (Suc i) binary"
      using True by (simp add: Cons_nth_drop_Suc)
    have t: "take (Suc i) (bytes[i := of_nat (of_char (binary ! i))])
        = take i bytes @ [of_nat (of_char (binary ! i))]"
      using True "1.prems" by (simp add: take_Suc_conv_app_nth)
    show ?thesis
      using 1 True d t by (subst base64ToUint8Array_loop.simps) simp
  next
    case False
    then show ?thesis
      using "1.prems" by (subst base64ToUint8Array_loop.simps) simp
  qed
qed

lemma arrayBufferToBase64_eq:
  "arrayBufferToBase64 buffer = btoa (map (\<lambda>b. char_of (unat b)) buffer)"
  by (simp add: arrayBufferToBase64_def arrayBufferToBase64_loop_eq)

lemma byte_mod_256: "of_nat (unat (b :: byte) mod 256) = b"
  using of_char_char_of_byte [of b] by (simp add: of_char_of)

lemma base64_round_trip: "base64ToUint8Array (arrayBufferToBase64 buffer) = Inr buffer"
  by (simp add: base64ToUint8Array_def arrayBufferToBase64_eq atob_btoa
      base64ToUint8Array_loop_eq o_def byte_mod_256)

subsection \<open>The chunks of a file\<close>

lemma Blob_slice_chunk:
  "Blob_slice bs (i * C) (min (i * C + C) (length bs)) = take C (drop (i * C) bs)"
proof (cases "i * C \<le> length bs")
  case True
  then show ?thesis
    by (auto simp: Blob_slice_def Let_def min_def)
next
  case False
  then show ?thesis
    by (simp add: Blob_slice_def Let_def min_def)
qed

lemma concat_chunks:
  "concat (map (\<lambda>j. take C (drop (j * C) bs)) [0..<k]) = take (k * C) bs"
proof (induction k)
  case 0
  show ?case by simp
next
  case (Suc k)
  have "take (k * C) bs @ take C (drop (k * C) bs) = take (k * C + C) bs"
    by (simp add: take_add)
  then show ?case using Suc by (simp add: add.commute)
qed

lemma sendFile_loop_eq:
  "sendFile_loop C f totalChunks i =
     map (\<lambda>j. FileChunk j (arrayBufferToBase64 (take C (drop (j * C) (file_bytes f)))))
       [i..<totalChunks]"
proof (induction C f totalChunks i rule: sendFile_loop.induct)
  case (1 C f totalChunks i)
  show ?case
  proof (cases "i < totalChunks")
    case True
    then show ?thesis
      using 1 by (subst sendFile_loop.simps)
        (simp add: Let_def file_size_def Blob_slice_chunk upt_conv_Cons)
  next
    case False
    then show ?thesis by (subst sendFile_loop.simps) simp
  qed
qed

lemma ceil_div: "0 < C \<Longrightarrow> nat \<lceil>real S / real C\<rceil> = (S + C - 1) div C"
proof -
  assume c: "0 < C"
  define q where "q = (S + C - 1) div C"
  have q1: "q * C \<le> S + C - 1"
    unfolding q_def by simp
  have q2: "S + C - 1 < C + q * C"
    unfolding q_def using c by (rule dividend_less_div_times)
  have a: "S \<le> q * C" using q2 c by linarith
  have b: "q * C < S + C" using q1 c by linarith
  have ra: "real S \<le> real q * real C"
    using a by (metis of_nat_le_iff of_nat_mult)
  have rb: "real q * real C < real S + real C"
    using b by (metis of_nat_less_iff of_nat_mult of_nat_add)
  have rc: "0 < real C" using c by simp
  have u: "real S / real C \<le> real_of_int (int q)"
    using ra rc by (simp add: pos_divide_le_eq)
  have "(real q - 1) * real C < real S"
    using rb by (simp add: algebra_simps)
  then have l: "real_of_int (int q) - 1 < real S / real C"
    using rc by (simp add: pos_less_divide_eq)
  have "\<lceil>real S / real C\<rceil> = int q"
    using l u by (rule ceiling_unique)
  then show ?thesis unfolding q_def by simp
qed

lemma ceil_covers: "0 < (C :: nat) \<Longrightarrow> S \<le> ((S + C - 1) div C) * C"
proof -
  assume c: "0 < C"
  have "S + C - 1 < C + ((S + C - 1) div C) * C"
    using c by (rule dividend_less_div_times)
  then show ?thesis using c by linarith
qed

lemma ceil_positive: "0 < (C :: nat) \<Longrightarrow> 0 < S \<Longrightarrow> 0 < (S + C - 1) div C"
  by (simp add: div_greater_zero_iff)

lemma file_chunk_eq: "file_chunk C f i = take C (drop (i * C) (file_bytes f))"
  by (simp add: file_chunk_def file_size_def Blob_slice_chunk)

lemma file_chunk_fun: "file_chunk C f = (\<lambda>i. take C (drop (i * C) (file_bytes f)))"
  by (rule ext) (rule file_chunk_eq)

lemma file_chunk_range:
  "file_chunk C f i
     = take (min (i * C + C) (file_size f) - i * C) (drop (i * C) (file_bytes f))"
  by (auto simp: file_chunk_def file_size_def Blob_slice_def Let_def min_def)

lemma sendFile_chunked_eq:
  "0 < C \<Longrightarrow>
   sendFile_chunked C (Some f) =
     FileMeta (file_name f) (file_size f) (file_type f) ((file_size f + C - 1) div C)
       # map (\<lambda>i. FileChunk i (arrayBufferToBase64 (file_chunk C f i)))
           [0..<(file_size f + C - 1) div C]
       @ [FileComplete]"
  by (simp add: sendFile_chunked_def Let_def ceil_div sendFile_loop_eq file_chunk_eq)

subsection \<open>The delivery callback\<close>

lemma deliver_all_append: "deliver_all r (xs @ ys) = deliver_all (deliver_all r xs) ys"
  by (induction xs arbitrary: r) simp_all

lemma onDeliver_FileMeta:
  "n < 2 ^ 32 \<Longrightarrow>
   onDeliver r (FileMeta a b c n) =
     (r\<lparr>recvFileInfo := Some (a, b, c), recvChunks := replicate n None,
        recvProgress := (0, n)\<rparr>, None)"
  by (simp add: onDeliver_def new_Array_def)

lemma onDeliver_FileMeta_too_long:
  "2 ^ 32 \<le> n \<Longrightarrow>
   onDeliver r (FileMeta a b c n) = (r\<lparr>recvFileInfo := Some (a, b, c)\<rparr>, Some RangeError)"
  by (simp add: onDeliver_def new_Array_def)

lemma onDeliver_chunk_stored:
  "i < length (recvChunks r) \<Longrightarrow>
   onDeliver r (FileChunk i (arrayBufferToBase64 bs)) =
     (r\<lparr>recvChunks := (recvChunks r)[i := Some bs],
        recvProgress := (length (filter (\<lambda>slot. slot \<noteq> None) ((recvChunks r)[i := Some bs])),
                         snd (recvProgress r))\<rparr>, None)"
  by (auto simp: onDeliver_def base64_round_trip array_store_def Let_def)

lemma onDeliver_chunk_length:
  "length (recvChunks (fst (onDeliver r (FileChunk idx data)))) =
     (if length (recvChunks r) = 0 \<or> atob data = None \<or> idx < length (recvChunks r)
         \<or> 2 ^ 32 - 1 \<le> idx
      then length (recvChunks r) else idx + 1)"
  by (auto simp: onDeliver_def base64ToUint8Array_def array_store_def Let_def
      split: option.splits)

lemma onDeliver_dropped:
  "length (recvChunks r) = 0 \<Longrightarrow>
   onDeliver r (FileChunk idx data) = (r, None) \<and> onDeliver r FileComplete = (r, None)"
  by (simp add: onDeliver_def)

lemma onDeliver_FileComplete:
  "recvChunks r \<noteq> [] \<Longrightarrow>
   onDeliver r FileComplete =
     (r\<lparr>downloadUrl := Some \<lparr>blob_bytes = concat (map blob_part (recvChunks r)),
          blob_type = ''application/octet-stream''\<rparr>\<rparr>, None)"
  by (simp add: onDeliver_def Let_def)

lemma deliver_chunks:
  assumes "length (recvChunks r) = n" and "i \<le> n"
  shows "recvChunks (deliver_all r
            (map (\<lambda>j. FileChunk j (arrayBufferToBase64 (g j))) [i..<n]))
          = take i (recvChunks r) @ map (\<lambda>j. Some (g j)) [i..<n]
       \<and> downloadUrl (deliver_all r
            (map (\<lambda>j. FileChunk j (arrayBufferToBase64 (g j))) [i..<n])) = downloadUrl r"
  using assms
proof (induction "n - i" arbitrary: i r)
  case 0
  then show ?case by simp
next
  case (Suc d)
  then have lt: "i < n" by linarith
  let ?r = "r\<lparr>recvChunks := (recvChunks r)[i := Some (g i)],
        recvProgress := (length (filter (\<lambda>slot. slot \<noteq> None) ((recvChunks r)[i := Some (g i)])),
                         snd (recvProgress r))\<rparr>"
  have st: "onDeliver r (FileChunk i (arrayBufferToBase64 (g i))) = (?r, None)"
    using lt Suc.prems(1) by (simp add: onDeliver_chunk_stored)
  have d: "d = n - Suc i" using Suc.hyps(2) by linarith
  have len: "length (recvChunks ?r) = n" using Suc.prems(1) by simp
  have le: "Suc i \<le> n" using lt by simp
  note ih = Suc.hyps(1) [OF d len le]
  have tk: "take (Suc i) (recvChunks ?r) = take i (recvChunks r) @ [Some (g i)]"
    using lt Suc.prems(1) by (simp add: take_Suc_conv_app_nth)
  have up: "[i..<n] = i # [Suc i..<n]"
    using lt by (simp add: upt_conv_Cons)
  show ?case
    using ih tk by (simp add: up st del: upt.simps)
qed

lemma concat_blob_parts:
  "concat (map blob_part (map (\<lambda>j. Some (g j)) xs)) = concat (map g xs)"
  by (simp add: blob_part_def o_def)

lemma chunk_kept_in_range:
  "is_chunk_below (length (recvChunks r)) p \<Longrightarrow>
   length (recvChunks (fst (onDeliver r p))) = length (recvChunks r)"
  by (cases p) (simp_all add: is_chunk_below_def onDeliver_chunk_length)

lemma chunks_kept_in_range:
  "\<forall>p\<in>set ps. is_chunk_below (length (recvChunks r)) p \<Longrightarrow>
   length (recvChunks (deliver_all r ps)) = length (recvChunks r)"
proof (induction ps arbitrary: r)
  case Nil
  show ?case by simp
next
  case (Cons p ps)
  have l: "length (recvChunks (fst (onDeliver r p))) = length (recvChunks r)"
    using Cons.prems by (simp add: chunk_kept_in_range)
  have "\<forall>q\<in>set ps. is_chunk_below (length (recvChunks (fst (onDeliver r p)))) q"
    using Cons.prems l by simp
  then show ?case using Cons.IH l by simp
qed

lemma round_trip_core:
  assumes c: "0 < C" and s: "0 < file_size f" and n: "(file_size f + C - 1) div C < 2 ^ 32"
  shows "recvChunks (deliver_all r (sendFile_chunked C (Some f)))
           = map (\<lambda>i. Some (file_chunk C f i)) [0..<(file_size f + C - 1) div C]
       \<and> downloadUrl (deliver_all r (sendFile_chunked C (Some f)))
           = Some \<lparr>blob_bytes = file_bytes f, blob_type = ''application/octet-stream''\<rparr>"
proof -
  let ?n = "(file_size f + C - 1) div C"
  let ?meta = "FileMeta (file_name f) (file_size f) (file_type f) ?n"
  let ?chunks = "map (\<lambda>i. FileChunk i (arrayBufferToBase64 (file_chunk C f i))) [0..<?n]"
  let ?r1 = "r\<lparr>recvFileInfo := Some (file_name f, file_size f, file_type f),
        recvChunks := replicate ?n None, recvProgress := (0, ?n)\<rparr>"
  let ?r2 = "deliver_all ?r1 ?chunks"
  have pos: "0 < ?n" using c s by (rule ceil_positive)
  have run: "deliver_all r (sendFile_chunked C (Some f)) = fst (onDeliver ?r2 FileComplete)"
    using c n by (simp add: sendFile_chunked_eq deliver_all_append onDeliver_FileMeta)
  have l1: "length (recvChunks ?r1) = ?n" by simp
  have ch: "recvChunks ?r2 = map (\<lambda>i. Some (file_chunk C f i)) [0..<?n]"
    and dl: "downloadUrl ?r2 = downloadUrl r"
    using deliver_chunks [OF l1, of 0 "file_chunk C f"] by simp_all
  have ne: "recvChunks ?r2 \<noteq> []" using ch pos by simp
  have "concat (map (file_chunk C f) [0..<?n]) = take (?n * C) (file_bytes f)"
    using concat_chunks [of C "file_bytes f" ?n] by (simp add: file_chunk_fun)
  also have "\<dots> = file_bytes f"
    using ceil_covers [OF c, of "file_size f"] by (simp add: file_size_def)
  finally have cc: "concat (map (file_chunk C f) [0..<?n]) = file_bytes f" .
  have bb: "concat (map blob_part (recvChunks ?r2)) = file_bytes f"
    unfolding ch concat_blob_parts by (rule cc)
  have fin: "onDeliver ?r2 FileComplete =
     (?r2\<lparr>downloadUrl := Some \<lparr>blob_bytes = file_bytes f,
          blob_type = ''application/octet-stream''\<rparr>\<rparr>, None)"
    using onDeliver_FileComplete [OF ne] unfolding bb .
  have "recvChunks (fst (onDeliver ?r2 FileComplete))
           = map (\<lambda>i. Some (file_chunk C f i)) [0..<?n]"
    unfolding fin using ch by simp
  moreover have "downloadUrl (fst (onDeliver ?r2 FileComplete))
           = Some \<lparr>blob_bytes = file_bytes f, blob_type = ''application/octet-stream''\<rparr>"
    unfolding fin by simp
  ultimately show ?thesis
    unfolding run by (rule conjI)
qed

lemma empty_file_payloads:
  "file_size f = 0 \<Longrightarrow>
   sendFile (Some f) = [FileMeta (file_name f) 0 (file_type f) 0, FileComplete]"
  by (simp add: sendFile_def sendFile_chunked_def Let_def sendFile_loop_eq)

section \<open>The claims about the file transfer\<close>

text \<open>
  C1, as stated, for every size: the sender computes \<open>totalChunks\<close> as the ceiling of
  \<open>S / C\<close> and emits the metadata, the chunks, each with its exact byte range in base64,
  and the completion; the receiver that processes them in this order ends with the
  original bytes. This fails for the empty file: \<open>totalChunks\<close> is 0, so the slot array is
  empty and the callback returns at \<^verbatim>\<open>if (!parts.length) return\<close> when the completion
  arrives: the metadata is recorded and no file is produced. It fails also when
  \<open>totalChunks\<close> reaches \<open>2^32\<close> (a file of \<open>2^32\<close> bytes cut into chunks of one byte):
  \<^verbatim>\<open>new Array(totalChunks)\<close> raises a RangeError.
\<close>

theorem file_round_trip_counterexample:
  "downloadUrl (deliver_all init_receiver
      (sendFile (Some \<lparr>file_name = ''empty.txt'', file_type = ''text/plain'', file_bytes = []\<rparr>)))
     = None
   \<and> recvFileInfo (deliver_all init_receiver
      (sendFile (Some \<lparr>file_name = ''empty.txt'', file_type = ''text/plain'', file_bytes = []\<rparr>)))
     = Some (''empty.txt'', 0, ''text/plain'')
   \<and> snd (onDeliver init_receiver
        (hd (sendFile_chunked 1
           (Some \<lparr>file_name = ''big.bin'', file_type = [], file_bytes = replicate (2 ^ 32) 0\<rparr>))))
     = Some RangeError"
proof -
  have a: "sendFile (Some \<lparr>file_name = ''empty.txt'', file_type = ''text/plain'', file_bytes = []\<rparr>)
      = [FileMeta ''empty.txt'' 0 ''text/plain'' 0, FileComplete]"
    by (simp add: empty_file_payloads file_size_def)
  have b: "hd (sendFile_chunked 1
           (Some \<lparr>file_name = ''big.bin'', file_type = [], file_bytes = replicate (2 ^ 32) 0\<rparr>))
      = FileMeta ''big.bin'' (2 ^ 32) [] (2 ^ 32)"
    by (simp add: sendFile_chunked_eq file_size_def)
  show ?thesis
    unfolding a b
    by (simp add: onDeliver_FileMeta onDeliver_FileMeta_too_long onDeliver_dropped
        init_receiver_def)
qed

text \<open>
  C1, amended: for a file of \<open>S > 0\<close> bytes and a chunk size \<open>C > 0\<close> whose number of
  chunks, the ceiling of \<open>S / C\<close>, is below \<open>2^32\<close>, \<open>sendFile\<close> emits the metadata
  with \<open>totalChunks = ceil(S / C)\<close>, then for each index from 0 to \<open>totalChunks - 1\<close> the
  chunk holding the base64 text of the bytes from \<open>i * C\<close> up to \<open>min((i + 1) * C, S)\<close>,
  then the completion; each chunk decodes to its bytes; and the receiver that processes
  these payloads in this order, from any state, ends with its slots holding the chunks in
  order and with a blob whose bytes are those of the file. For \<open>S = 40000\<close> and
  \<open>C = 16384\<close> there are 3 chunks, of 16384, 16384 and 7232 bytes.
\<close>

theorem file_round_trip:
  assumes "0 < C" and "0 < file_size f" and "nat \<lceil>real (file_size f) / real C\<rceil> < 2 ^ 32"
  shows "nat \<lceil>real (file_size f) / real C\<rceil> = (file_size f + C - 1) div C
    \<and> sendFile_chunked C (Some f) =
         FileMeta (file_name f) (file_size f) (file_type f) ((file_size f + C - 1) div C)
           # map (\<lambda>i. FileChunk i (arrayBufferToBase64 (file_chunk C f i)))
               [0..<(file_size f + C - 1) div C]
           @ [FileComplete]
    \<and> (\<forall>i. file_chunk C f i
             = take (min (i * C + C) (file_size f) - i * C) (drop (i * C) (file_bytes f))
           \<and> base64ToUint8Array (arrayBufferToBase64 (file_chunk C f i))
             = Inr (file_chunk C f i))
    \<and> recvChunks (deliver_all r (sendFile_chunked C (Some f)))
         = map (\<lambda>i. Some (file_chunk C f i)) [0..<(file_size f + C - 1) div C]
    \<and> downloadUrl (deliver_all r (sendFile_chunked C (Some f)))
         = Some \<lparr>blob_bytes = file_bytes f, blob_type = ''application/octet-stream''\<rparr>
    \<and> (C = 16384 \<and> file_size f = 40000 \<longrightarrow>
         (file_size f + C - 1) div C = 3
         \<and> map (\<lambda>i. length (file_chunk C f i)) [0..<3] = [16384, 16384, 7232])"
proof -
  have cd: "nat \<lceil>real (file_size f) / real C\<rceil> = (file_size f + C - 1) div C"
    using assms(1) by (rule ceil_div)
  have n: "(file_size f + C - 1) div C < 2 ^ 32"
    using assms(3) cd by simp
  have ex: "map (\<lambda>i. length (file_chunk C f i)) [0..<3] = [16384, 16384, 7232]"
    if "C = 16384" and "file_size f = 40000"
  proof -
    have u: "[0..<3] = [0, 1, 2]" by (simp add: upt_rec)
    have l: "length (file_bytes f) = 40000" using that(2) by (simp add: file_size_def)
    show ?thesis
      unfolding u using that(1) l by (simp add: file_chunk_eq)
  qed
  show ?thesis
    using cd sendFile_chunked_eq [OF assms(1), of f] file_chunk_range [of C f]
      base64_round_trip round_trip_core [OF assms(1) assms(2) n, of r] ex
    by simp
qed

theorem file_round_trip_witness:
  "sendFile_chunked 2
       (Some \<lparr>file_name = ''a.bin'', file_type = ''x'', file_bytes = [1, 2, 3, 255, 0]\<rparr>)
     = FileMeta ''a.bin'' 5 ''x'' 3
         # map (\<lambda>i. FileChunk i (arrayBufferToBase64
             (file_chunk 2 \<lparr>file_name = ''a.bin'', file_type = ''x'',
                file_bytes = [1, 2, 3, 255, 0]\<rparr> i))) [0..<3]
         @ [FileComplete]
   \<and> downloadUrl (deliver_all init_receiver (sendFile_chunked 2
       (Some \<lparr>file_name = ''a.bin'', file_type = ''x'', file_bytes = [1, 2, 3, 255, 0]\<rparr>)))
     = Some \<lparr>blob_bytes = [1, 2, 3, 255, 0], blob_type = ''application/octet-stream''\<rparr>"
proof -
  let ?f = "\<lparr>file_name = ''a.bin'', file_type = ''x'', file_bytes = [1, 2, 3, 255, 0 :: byte]\<rparr>"
  have s: "file_size ?f = 5" by (simp add: file_size_def)
  have h1: "0 < (2 :: nat)" by simp
  have h2: "0 < file_size ?f" by (simp add: s)
  have "nat \<lceil>real (file_size ?f) / real 2\<rceil> = 3"
    by (simp add: s ceil_div)
  then have h3: "nat \<lceil>real (file_size ?f) / real 2\<rceil> < 2 ^ 32" by simp
  have d: "(file_size ?f + 2 - 1) div 2 = 3" by (simp add: s)
  note t = file_round_trip [OF h1 h2 h3, of init_receiver]
  show ?thesis
    using t [THEN conjunct2, THEN conjunct1]
      t [THEN conjunct2, THEN conjunct2, THEN conjunct2, THEN conjunct2, THEN conjunct1]
    by (simp add: d s)
qed

text \<open>
  C8, as stated: after the metadata with \<open>totalChunks = n\<close> the slot array has length
  \<open>n\<close>, and chunks keep it at \<open>n\<close> whatever their index. The second half fails: the
  callback stores at \<^verbatim>\<open>recvChunksRef.current[idx]\<close> without comparing \<open>idx\<close> with the
  length, and a JavaScript array grows when an element beyond its end is assigned. After
  the metadata for 2 chunks, a chunk with index 5 leaves an array of length 6.
\<close>

theorem slot_buffer_length_counterexample:
  "length (recvChunks (deliver_all init_receiver [FileMeta ''f'' 2 ''t'' 2, FileChunk 5 []])) = 6"
  by (simp add: onDeliver_FileMeta onDeliver_chunk_length atob_empty)

text \<open>
  C8, amended: after the metadata with \<open>totalChunks = n\<close>, \<open>n < 2^32\<close>, the slot array
  has length \<open>n\<close>, and it keeps this length across every sequence of chunks whose indices
  are all below \<open>n\<close>. In general a chunk leaves the length alone when the array is empty,
  when its data does not decode, when its index is below the length or is no array index
  (\<open>2^32 - 1\<close> or more); any other index \<open>idx\<close> extends the array to \<open>idx + 1\<close> slots.
\<close>

theorem slot_buffer_length:
  assumes "n < 2 ^ 32" and "\<forall>p\<in>set ps. is_chunk_below n p"
  shows "length (recvChunks (fst (onDeliver r (FileMeta name fsize ftype n)))) = n
    \<and> length (recvChunks (deliver_all (fst (onDeliver r (FileMeta name fsize ftype n))) ps)) = n
    \<and> length (recvChunks (fst (onDeliver r' (FileChunk idx data)))) =
        (if length (recvChunks r') = 0 \<or> atob data = None \<or> idx < length (recvChunks r')
            \<or> 2 ^ 32 - 1 \<le> idx
         then length (recvChunks r') else idx + 1)"
proof -
  let ?r1 = "fst (onDeliver r (FileMeta name fsize ftype n))"
  have l: "length (recvChunks ?r1) = n"
    using assms(1) by (simp add: onDeliver_FileMeta)
  have "\<forall>p\<in>set ps. is_chunk_below (length (recvChunks ?r1)) p"
    using assms(2) l by simp
  then have "length (recvChunks (deliver_all ?r1 ps)) = length (recvChunks ?r1)"
    by (rule chunks_kept_in_range)
  then show ?thesis
    using l onDeliver_chunk_length [of r' idx data] by simp
qed

theorem slot_buffer_length_witness:
  "length (recvChunks (deliver_all (fst (onDeliver init_receiver (FileMeta ''f'' 20 ''t'' 2)))
      [FileChunk 1 ''AQI='', FileChunk 0 ''%'', FileChunk 1 []])) = 2"
proof -
  have h1: "(2 :: nat) < 2 ^ 32" by simp
  have h2: "\<forall>p\<in>set [FileChunk 1 ''AQI='', FileChunk 0 ''%'', FileChunk 1 []]. is_chunk_below 2 p"
    by (simp add: is_chunk_below_def)
  show ?thesis
    using slot_buffer_length [OF h1 h2, of init_receiver "''f''" 20 "''t''"] by simp
qed

text \<open>
  C10. Without a slot array (none allocated yet, or allocated for 0 chunks) a chunk and a
  completion are dropped: the callback returns the state it found and raises nothing. So
  the transfer of an empty file, whose metadata announces 0 chunks, leaves the receiver
  with the blob it had before, none on a fresh receiver: no file is produced.
\<close>

theorem chunk_and_complete_dropped_without_slots:
  assumes "length (recvChunks r) = 0"
  shows "onDeliver r (FileChunk idx data) = (r, None)
    \<and> onDeliver r FileComplete = (r, None)
    \<and> (file_size f = 0 \<longrightarrow>
          sendFile (Some f) = [FileMeta (file_name f) 0 (file_type f) 0, FileComplete]
          \<and> downloadUrl (deliver_all r' (sendFile (Some f))) = downloadUrl r'
          \<and> recvChunks (deliver_all r' (sendFile (Some f))) = []
          \<and> downloadUrl (deliver_all init_receiver (sendFile (Some f))) = None)"
proof -
  have "downloadUrl (deliver_all r'' (sendFile (Some f))) = downloadUrl r''
      \<and> recvChunks (deliver_all r'' (sendFile (Some f))) = []"
    if "file_size f = 0" for r''
    using that
    by (simp add: empty_file_payloads onDeliver_FileMeta onDeliver_dropped)
  then show ?thesis
    using onDeliver_dropped [OF assms, of idx data] empty_file_payloads [of f]
    by (simp add: init_receiver_def)
qed

theorem chunk_and_complete_dropped_without_slots_witness:
  "onDeliver init_receiver (FileChunk 0 ''AQI='') = (init_receiver, None)
   \<and> onDeliver init_receiver FileComplete = (init_receiver, None)
   \<and> downloadUrl (deliver_all init_receiver
        (sendFile (Some \<lparr>file_name = ''empty.txt'', file_type = ''text/plain'',
           file_bytes = []\<rparr>))) = None"
proof -
  have h: "length (recvChunks init_receiver) = 0" by (simp add: init_receiver_def)
  have s: "file_size \<lparr>file_name = ''empty.txt'', file_type = ''text/plain'', file_bytes = []\<rparr> = 0"
    by (simp add: file_size_def)
  show ?thesis
    using chunk_and_complete_dropped_without_slots [OF h, of 0 "''AQI=''"
        "\<lparr>file_name = ''empty.txt'', file_type = ''text/plain'', file_bytes = []\<rparr>"
        init_receiver] s
    by blast
qed

section \<open>The claim about the relay\<close>

lemma relay_loop_eq:
  "relay_loop text ws r room =
     r\<lparr>ws_sent := ws_sent r
        @ map (\<lambda>c. (c, text)) (filter (\<lambda>c. c \<noteq> ws \<and> ws_readyState r c = 1) room)\<rparr>"
proof (induction room arbitrary: r)
  case Nil
  show ?case by simp
next
  case (Cons client clients)
  show ?case
    by (simp add: Cons.IH ws_send_def)
qed

lemma parse_join_room_A:
  "sample_sig_parse join_room_A
     = Some \<lparr>sig_type = Some ''join'', sig_roomId = Some ''room-A'', sig_rest = []\<rparr>"
  by (simp add: sample_sig_parse_def join_room_A_def json_member_def quoted_def dquote_def)

lemma parse_spaced_offer:
  "sample_sig_parse spaced_offer
     = Some \<lparr>sig_type = Some ''offer'', sig_roomId = Some ''room-A'', sig_rest = []\<rparr>"
  by (simp add: sample_sig_parse_def spaced_offer_def quoted_def dquote_def)

lemma stringify_offer:
  "sample_sig_stringify \<lparr>sig_type = Some ''offer'', sig_roomId = Some ''room-A'', sig_rest = []\<rparr>
     = compact_offer"
  by (simp add: sample_sig_stringify_def compact_offer_def)

lemma stringify_joined:
  "sample_sig_stringify \<lparr>sig_type = Some ''joined'', sig_roomId = Some ''room-A'', sig_rest = []\<rparr>
     = joined_room_A"
  by (simp add: sample_sig_stringify_def joined_room_A_def)

lemma compact_not_spaced: "compact_offer \<noteq> spaced_offer"
  by (simp add: compact_offer_def spaced_offer_def json_member_def quoted_def)

lemma two_joined_eq:
  "two_joined = \<lparr>rooms = [''room-A'' \<mapsto> [1, 2]], ws_roomId = [1 \<mapsto> ''room-A'', 2 \<mapsto> ''room-A''],
     ws_readyState = (\<lambda>ws. 1), ws_sent = [(1, joined_room_A), (2, joined_room_A)]\<rparr>"
  by (simp add: two_joined_def on_message_def parse_join_room_A stringify_joined
      init_relay_def getOrCreateRoom_def Set_add_def ws_send_def)

text \<open>
  C9, as stated: the relay forwards an offer, answer or candidate verbatim to the other
  open members of the room. What the handler sends is not the text it received but
  \<^verbatim>\<open>JSON.stringify(msg)\<close> of the value \<^verbatim>\<open>msg = JSON.parse(raw.toString())\<close>. In the room of
  sockets 1 and 2, socket 1 sends an offer written with a space after each colon and the
  comma; socket 2 is sent the same object without the spaces, a different text.
\<close>

theorem relay_excludes_sender_counterexample:
  "ws_sent (on_message sample_sig_stringify sample_sig_parse two_joined 1 spaced_offer)
     = ws_sent two_joined @ [(2, compact_offer)]
   \<and> compact_offer \<noteq> spaced_offer"
proof -
  have "on_message sample_sig_stringify sample_sig_parse two_joined 1 spaced_offer
      = two_joined\<lparr>ws_sent := ws_sent two_joined @ [(2, compact_offer)]\<rparr>"
    by (simp add: on_message_def parse_spaced_offer stringify_offer relay_loop_eq two_joined_eq)
  then show ?thesis
    using compact_not_spaced by simp
qed

text \<open>
  C9, amended: a message of type offer, answer or candidate that names a room \<open>R\<close> is
  parsed and serialized again (\<^verbatim>\<open>JSON.stringify\<close> of the parsed value, not the raw text),
  and this one text is sent once to every json_member of \<open>R\<close> that is open (\<open>readyState\<close> 1)
  and is not the sending socket, in the order of joining, and to nobody else; the rest of
  the relay's state is unchanged. A room that does not exist has no members. In a room of
  the sender and one other open socket, only the other one is sent the message.
\<close>

theorem relay_excludes_sender:
  assumes "parse raw = Some msg"
    and "sig_type msg \<in> {Some ''offer'', Some ''answer'', Some ''candidate''}"
    and "sig_roomId msg = Some R" and "R \<noteq> []"
  shows "on_message stringify parse r ws raw =
      r\<lparr>ws_sent := ws_sent r @ map (\<lambda>c. (c, stringify msg))
          (filter (\<lambda>c. c \<noteq> ws \<and> ws_readyState r c = 1)
             (case rooms r R of None \<Rightarrow> [] | Some room \<Rightarrow> room))\<rparr>
    \<and> fst ` set (drop (length (ws_sent r)) (ws_sent (on_message stringify parse r ws raw)))
        = {c. c \<in> set (case rooms r R of None \<Rightarrow> [] | Some room \<Rightarrow> room)
              \<and> c \<noteq> ws \<and> ws_readyState r c = 1}
    \<and> snd ` set (drop (length (ws_sent r)) (ws_sent (on_message stringify parse r ws raw)))
        \<subseteq> {stringify msg}
    \<and> (rooms r R = Some [ws, b] \<and> b \<noteq> ws \<and> ws_readyState r b = 1 \<longrightarrow>
         ws_sent (on_message stringify parse r ws raw) = ws_sent r @ [(b, stringify msg)])"
proof -
  let ?members = "case rooms r R of None \<Rightarrow> [] | Some room \<Rightarrow> room"
  let ?to = "filter (\<lambda>c. c \<noteq> ws \<and> ws_readyState r c = 1) ?members"
  have nj: "sig_type msg \<noteq> Some ''join''" using assms(2) by auto
  have m: "on_message stringify parse r ws raw =
      r\<lparr>ws_sent := ws_sent r @ map (\<lambda>c. (c, stringify msg)) ?to\<rparr>"
    using assms nj by (simp add: on_message_def relay_loop_eq split: option.splits)
  have d: "drop (length (ws_sent r)) (ws_sent (on_message stringify parse r ws raw))
      = map (\<lambda>c. (c, stringify msg)) ?to"
    unfolding m by simp
  have f: "fst ` set (map (\<lambda>c. (c, stringify msg)) ?to)
      = {c. c \<in> set ?members \<and> c \<noteq> ws \<and> ws_readyState r c = 1}"
    by (auto simp: image_iff)
  have s: "snd ` set (map (\<lambda>c. (c, stringify msg)) ?to) \<subseteq> {stringify msg}"
    by auto
  have t: "ws_sent (on_message stringify parse r ws raw) = ws_sent r @ [(b, stringify msg)]"
    if "rooms r R = Some [ws, b]" "b \<noteq> ws" "ws_readyState r b = 1"
    unfolding m using that by simp
  show ?thesis
    unfolding d using m f s t by blast
qed

theorem relay_excludes_sender_witness:
  "ws_sent (on_message sample_sig_stringify sample_sig_parse two_joined 1 spaced_offer)
     = [(1, joined_room_A), (2, joined_room_A), (2, compact_offer)]
   \<and> rooms (on_message sample_sig_stringify sample_sig_parse two_joined 1 spaced_offer)
     = rooms two_joined
   \<and> ws_roomId (on_message sample_sig_stringify sample_sig_parse two_joined 1 spaced_offer)
     = ws_roomId two_joined"
proof -
  let ?msg = "\<lparr>sig_type = Some ''offer'', sig_roomId = Some ''room-A'', sig_rest = []\<rparr>"
  have h2: "sig_type ?msg \<in> {Some ''offer'', Some ''answer'', Some ''candidate''}" by simp
  have h3: "sig_roomId ?msg = Some ''room-A''" by simp
  have h4: "''room-A'' \<noteq> []" by simp
  note t = relay_excludes_sender [of sample_sig_parse spaced_offer ?msg "''room-A''"
      sample_sig_stringify two_joined 1 2, OF parse_spaced_offer h2 h3 h4]
  have "on_message sample_sig_stringify sample_sig_parse two_joined 1 spaced_offer
      = two_joined\<lparr>ws_sent := [(1, joined_room_A), (2, joined_room_A), (2, compact_offer)]\<rparr>"
    using t [THEN conjunct1] by (simp add: two_joined_eq stringify_offer)
  then show ?thesis by simp
qed

end
